theory Spec2Isabelle
  imports Main "HOL-Library.Word" "HOL-Library.AList"
begin

unbundle bit_operations_syntax

section \<open>The log segment (log\_segment.h)\<close>

text \<open>
  \<^verbatim>\<open>size_t\<close>, \<^verbatim>\<open>uint64_t\<close> and \<^verbatim>\<open>LsnType\<close> are 64-bit unsigned integers: addition and
  subtraction wrap around modulo \<open>2 ^ 64\<close>.
\<close>

type_synonym u64 = "64 word"
type_synonym LsnType = "64 word"

subsection \<open>Control-bit constants and accessors\<close>

definition kIsSealedOffset :: nat where
  "kIsSealedOffset = 63"

definition kIsSealedMaskbit :: u64 where
  "kIsSealedMaskbit = 1"

definition kWriterNumOffset :: nat where
  "kWriterNumOffset = 48"

definition kWriterNumMaskbit :: u64 where
  "kWriterNumMaskbit = 0x7FFF"

definition kLsnOffset :: nat where
  "kLsnOffset = 0"

definition kLsnMaskbit :: u64 where
  "kLsnMaskbit = push_bit 48 1 - 1"

definition kMaximumWriterNum :: u64 where
  "kMaximumWriterNum = kWriterNumMaskbit"

text \<open>
  Isabelle names cannot end in an underscore, so the private members \<^verbatim>\<open>IsSealed_\<close>,
  \<^verbatim>\<open>GetLsn_\<close>, ... are written without it. The \<^verbatim>\<open>bool\<close> result of \<^verbatim>\<open>IsSealed_\<close> is
  the conversion of the masked word: non-zero is true.
\<close>

definition IsSealed :: "u64 \<Rightarrow> bool" where
  "IsSealed control_bits \<longleftrightarrow> (drop_bit kIsSealedOffset control_bits AND kIsSealedMaskbit) \<noteq> 0"

definition MarkSealed :: "u64 \<Rightarrow> u64" where
  "MarkSealed control_bits = control_bits OR push_bit kIsSealedOffset 1"

definition GetWriterNum :: "u64 \<Rightarrow> u64" where
  "GetWriterNum control_bits = drop_bit kWriterNumOffset control_bits AND kWriterNumMaskbit"

definition IncrWriterNum :: "u64 \<Rightarrow> u64" where
  "IncrWriterNum control_bits = control_bits + push_bit kWriterNumOffset 1"

definition DecrWriterNum :: "u64 \<Rightarrow> u64" where
  "DecrWriterNum control_bits = control_bits - push_bit kWriterNumOffset 1"

definition GetLsn :: "u64 \<Rightarrow> u64" where
  "GetLsn control_bits = control_bits AND kLsnMaskbit"

definition BumpLsn :: "u64 \<Rightarrow> u64 \<Rightarrow> u64" where
  "BumpLsn control_bits len = control_bits + len"

subsection \<open>Segment state\<close>

datatype LogSegmentState = kFree | kOpen | kIo

text \<open>
  The members \<^verbatim>\<open>state_\<close>, \<^verbatim>\<open>size_\<close>, \<^verbatim>\<open>start_lsn_\<close> and \<^verbatim>\<open>control_bits_\<close> of
  \<^verbatim>\<open>LogSegment\<close>. The byte buffer \<^verbatim>\<open>writer_\<close> is not touched by the operations below.
\<close>

record LogSegment =
  state :: LogSegmentState
  size_seg :: u64
  start_lsn :: LsnType
  control_bits :: u64

text \<open>The constructor \<^verbatim>\<open>LogSegment(size_t size)\<close> with the default member initialisers.\<close>

definition new_LogSegment :: "u64 \<Rightarrow> LogSegment" where
  "new_LogSegment sz = \<lparr>state = kFree, size_seg = sz, start_lsn = 0, control_bits = 0\<rparr>"

text \<open>
  The ways the process stops instead of returning: a failed \<^verbatim>\<open>CHECK\<close> (\<^verbatim>\<open>FATAL\<close> calls
  \<^verbatim>\<open>std::abort\<close>) and an access outside a container.
\<close>

datatype fatal = CheckFailed | OutOfRange

text \<open>
  \<^verbatim>\<open>std::atomic::compare_exchange_weak(expected, desired)\<close> in a sequential execution
  without spurious failures: when the object equals \<^verbatim>\<open>expected\<close> it is replaced by
  \<^verbatim>\<open>desired\<close> and the call returns true; otherwise \<^verbatim>\<open>expected\<close> is overwritten with the
  object's value and the call returns false. The result is the returned flag, the object
  and \<^verbatim>\<open>expected\<close> after the call.
\<close>

definition compare_exchange_weak :: "u64 \<Rightarrow> u64 \<Rightarrow> u64 \<Rightarrow> bool \<times> u64 \<times> u64" where
  "compare_exchange_weak obj expected desired =
     (if obj = expected then (True, desired, expected) else (False, obj, obj))"

subsection \<open>OnWriterExit\<close>

text \<open>
  The \<^verbatim>\<open>do ... while (control_bits_.compare_exchange_weak(...))\<close> loop of \<^verbatim>\<open>OnWriterExit\<close>:
  the body is repeated as long as the exchange succeeds. The arguments are the atomic
  \<^verbatim>\<open>control_bits_\<close>, the local \<^verbatim>\<open>current_control_bits\<close> and the local
  \<^verbatim>\<open>should_schedule_io_task\<close>. \<^verbatim>\<open>is_last_writer\<close> is the conversion of the writer number
  to \<^verbatim>\<open>bool\<close>.
\<close>

partial_function (option) OnWriterExit_loop :: "u64 \<Rightarrow> u64 \<Rightarrow> bool \<Rightarrow> (bool \<times> u64) option" where
  "OnWriterExit_loop cb current_control_bits should_schedule_io_task =
     (let is_sealed = IsSealed current_control_bits;
          new_control_bits = DecrWriterNum current_control_bits;
          is_last_writer = (GetWriterNum new_control_bits \<noteq> 0);
          should_schedule = (if is_last_writer \<and> is_sealed then True else should_schedule_io_task);
          (ok, cb', current') = compare_exchange_weak cb current_control_bits new_control_bits
      in if ok then OnWriterExit_loop cb' current' should_schedule
         else Some (should_schedule, cb'))"

declare OnWriterExit_loop.simps [code]

definition OnWriterExit :: "LogSegment \<Rightarrow> LogSegment option" where
  "OnWriterExit seg =
     (case OnWriterExit_loop (control_bits seg) (control_bits seg) False of
        None \<Rightarrow> None
      | Some (should_schedule_io_task, cb) \<Rightarrow>
          Some (if should_schedule_io_task then seg\<lparr>control_bits := cb, state := kIo\<rparr>
                else seg\<lparr>control_bits := cb\<rparr>))"

subsection \<open>AcquireControlGuard\<close>

text \<open>
  The loop of \<^verbatim>\<open>AcquireControlGuard\<close>. The result is the returned pair (whether a guard is
  returned, and the seal flag) with the atomic \<^verbatim>\<open>control_bits_\<close> when the loop is left.
\<close>

partial_function (option) AcquireControlGuard_loop ::
    "u64 \<Rightarrow> u64 \<Rightarrow> u64 \<Rightarrow> u64 \<Rightarrow> ((unit option \<times> bool) \<times> u64) option" where
  "AcquireControlGuard_loop sz len cb current_control_bits =
     (let current_lsn = GetLsn current_control_bits in
      if current_lsn + len > sz then Some ((None, True), cb)
      else let current_writers = GetWriterNum current_control_bits in
        if current_writers + 1 > kMaximumWriterNum then Some ((None, False), cb)
        else let new_control_bits = BumpLsn (IncrWriterNum current_control_bits) len;
                 (ok, cb', current') = compare_exchange_weak cb current_control_bits new_control_bits
             in if ok then AcquireControlGuard_loop sz len cb' current'
                else Some ((Some (), False), cb'))"

declare AcquireControlGuard_loop.simps [code]

text \<open>
  \<^verbatim>\<open>return {ControlGuard(this), false};\<close> copies the temporary \<^verbatim>\<open>ControlGuard(this)\<close> into
  the \<^verbatim>\<open>std::optional\<close> of the returned pair (the class declares a destructor and no move
  constructor) and destroys the temporary at the end of the return statement. The
  destructor \<^verbatim>\<open>~ControlGuard() { OnExit_(); }\<close> calls \<^verbatim>\<open>segment_->OnWriterExit()\<close>, so the
  segment the caller gets back has been through \<^verbatim>\<open>OnWriterExit\<close> once.
  \<^verbatim>\<open>AcquireControlGuard_cas\<close> is the segment before that destructor runs.
\<close>

definition AcquireControlGuard_cas ::
    "LogSegment \<Rightarrow> u64 \<Rightarrow> ((unit option \<times> bool) \<times> LogSegment) option" where
  "AcquireControlGuard_cas seg len =
     (case AcquireControlGuard_loop (size_seg seg) len (control_bits seg) (control_bits seg) of
        None \<Rightarrow> None
      | Some (r, cb) \<Rightarrow> Some (r, seg\<lparr>control_bits := cb\<rparr>))"

definition AcquireControlGuard ::
    "LogSegment \<Rightarrow> u64 \<Rightarrow> ((unit option \<times> bool) \<times> LogSegment) option" where
  "AcquireControlGuard seg len =
     (case AcquireControlGuard_cas seg len of
        None \<Rightarrow> None
      | Some ((None, should_seal), seg') \<Rightarrow> Some ((None, should_seal), seg')
      | Some ((Some guard, should_seal), seg') \<Rightarrow>
          (case OnWriterExit seg' of
             None \<Rightarrow> None
           | Some seg'' \<Rightarrow> Some ((Some guard, should_seal), seg'')))"

subsection \<open>Opening and sealing\<close>

definition OpenLogSegmentAndSetLsn :: "LogSegment \<Rightarrow> LsnType \<Rightarrow> fatal + LogSegment" where
  "OpenLogSegmentAndSetLsn seg lsn =
     (if state seg \<noteq> kFree then Inl CheckFailed
      else Inr (seg\<lparr>start_lsn := lsn, state := kOpen\<rparr>))"

partial_function (option) TrySealLogSegment_loop ::
    "u64 \<Rightarrow> u64 \<Rightarrow> (LsnType option \<times> u64) option" where
  "TrySealLogSegment_loop cb current_control_bits =
     (if IsSealed current_control_bits then Some (None, cb)
      else let new_control_bits = MarkSealed current_control_bits;
               new_lsn = GetLsn new_control_bits;
               (ok, cb', current') = compare_exchange_weak cb current_control_bits new_control_bits
           in if ok then TrySealLogSegment_loop cb' current'
              else Some (Some new_lsn, cb'))"

declare TrySealLogSegment_loop.simps [code]

definition TrySealLogSegment :: "LogSegment \<Rightarrow> (fatal + LsnType option \<times> LogSegment) option" where
  "TrySealLogSegment seg =
     (if state seg \<noteq> kOpen then Some (Inl CheckFailed)
      else case TrySealLogSegment_loop (control_bits seg) (control_bits seg) of
             None \<Rightarrow> None
           | Some (r, cb) \<Rightarrow> Some (Inr (r, seg\<lparr>control_bits := cb\<rparr>)))"


text \<open>
  The two tests of the loop body of \<^verbatim>\<open>AcquireControlGuard\<close>, named:
  \<^verbatim>\<open>current_lsn + length > size_\<close> and \<^verbatim>\<open>current_writers + 1 > kMaximumWriterNum\<close>.
\<close>

definition must_seal :: "u64 \<Rightarrow> u64 \<Rightarrow> u64 \<Rightarrow> bool" where
  "must_seal sz len cb \<longleftrightarrow> GetLsn cb + len > sz"

definition must_wait :: "u64 \<Rightarrow> bool" where
  "must_wait cb \<longleftrightarrow> GetWriterNum cb + 1 > kMaximumWriterNum"

section \<open>The log store (posix\_log\_store.cpp)\<close>

text \<open>
  The ring of segments of \<^verbatim>\<open>PosixLogStore\<close>. A \<^verbatim>\<open>LogSegment *\<close> is an index into the ring.
\<close>

record PosixLogStore =
  segments :: "LogSegment list"
  current_log_segment :: nat

text \<open>
  Modelled from the spec: \<^verbatim>\<open>OpenNewLogSegment_\<close>, which \<^verbatim>\<open>SealAndOpen\<close> calls and no source file
  defines. The spec has the ring traversed circularly and the next segment opened with
  \<open>start_lsn\<close> equal to the end of the sealed one, that is, to the LSN it is given; the
  segment is opened with \<^verbatim>\<open>OpenLogSegmentAndSetLsn\<close> of log\_segment.h.
\<close>

definition OpenNewLogSegment :: "PosixLogStore \<Rightarrow> LsnType \<Rightarrow> fatal + PosixLogStore" where
  "OpenNewLogSegment store lsn =
     (if segments store = [] then Inl OutOfRange
      else let next = (current_log_segment store + 1) mod length (segments store) in
        case OpenLogSegmentAndSetLsn (segments store ! next) lsn of
          Inl e \<Rightarrow> Inl e
        | Inr seg \<Rightarrow>
            Inr (store\<lparr>segments := (segments store)[next := seg], current_log_segment := next\<rparr>))"

definition SealAndOpen :: "PosixLogStore \<Rightarrow> nat \<Rightarrow> (fatal + bool \<times> PosixLogStore) option" where
  "SealAndOpen store log_segment =
     (if length (segments store) \<le> log_segment then Some (Inl OutOfRange)
      else case TrySealLogSegment (segments store ! log_segment) of
             None \<Rightarrow> None
           | Some (Inl e) \<Rightarrow> Some (Inl e)
           | Some (Inr (lsn, seg)) \<Rightarrow>
               (let store' = store\<lparr>segments := (segments store)[log_segment := seg]\<rparr> in
                case lsn of
                  None \<Rightarrow> Some (Inr (False, store'))
                | Some l \<Rightarrow>
                    (case OpenNewLogSegment store' l of
                       Inl e \<Rightarrow> Some (Inl e)
                     | Inr store'' \<Rightarrow> Some (Inr (True, store'')))))"

text \<open>
  \<^verbatim>\<open>AcquireControlGuard\<close> on a segment of the ring.
\<close>

definition store_AcquireControlGuard ::
    "PosixLogStore \<Rightarrow> nat \<Rightarrow> u64 \<Rightarrow> (fatal + (unit option \<times> bool) \<times> PosixLogStore) option" where
  "store_AcquireControlGuard store log_segment len =
     (if length (segments store) \<le> log_segment then Some (Inl OutOfRange)
      else case AcquireControlGuard (segments store ! log_segment) len of
             None \<Rightarrow> None
           | Some (r, seg) \<Rightarrow>
               Some (Inr (r, store\<lparr>segments := (segments store)[log_segment := seg]\<rparr>)))"

text \<open>
  Modelled from the spec: the status kinds of common/status.h, which is not among the
  sources. \<^verbatim>\<open>ok()\<close> holds of \<open>Ok\<close> only and \<^verbatim>\<open>IsNotFound()\<close> of \<open>NotFound\<close> only.
\<close>

datatype Status = Ok | NotFound | Abort | Commit | Err | Conflict

text \<open>
  \<^verbatim>\<open>LsnRange\<close>, the element of the result container, is declared in log\_store.h, which
  is not among the sources; the code reads its member \<^verbatim>\<open>end_lsn\<close>.
\<close>

record LsnRange =
  range_start_lsn :: LsnType
  end_lsn :: LsnType

text \<open>
  \<^verbatim>\<open>PosixLogStore::AppendLogRecord\<close>: the body is the single statement
  \<^verbatim>\<open>return Status::Ok();\<close>, so \<^verbatim>\<open>*result\<close> is left as the caller passed it.
\<close>

definition AppendLogRecord :: "'r list \<Rightarrow> LsnRange list \<Rightarrow> Status \<times> LsnRange list" where
  "AppendLogRecord log_records result = (Ok, result)"

section \<open>The optimistic transaction context (txn\_context\_occ.cpp)\<close>

subsection \<open>Rows, options and the collaborators of the context\<close>

type_synonym TxnTs = "64 word"

text \<open>
  Modelled from the spec: rows and sort keys (property/row.h is not among the sources).
  A row is a tuple of column values, the sort key is its leading \<open>sort_key_count\<close>
  columns. The column types are those of the schema of the page test.
\<close>

datatype Value = Int64 "64 word" | Int32 "32 word" | Str string

type_synonym SortKeys = "Value list"

record Row =
  columns :: "Value list"
  sort_key_count :: nat

definition GetSortKeys :: "Row \<Rightarrow> SortKeys" where
  "GetSortKeys r = take (sort_key_count r) (columns r)"

definition GetProp :: "nat \<Rightarrow> Row \<Rightarrow> Value option" where
  "GetProp i r = (if i < length (columns r) then Some (columns r ! i) else None)"

text \<open>
  The fields of \<^verbatim>\<open>Options\<close> that the code reads or writes. \<^verbatim>\<open>schema\<close> and \<^verbatim>\<open>buffer_pool\<close>
  are pointers to collaborators and carry no behaviour here.
\<close>

record Options =
  disable_compaction :: bool
  ignore_lock :: bool
  owner_ts :: "TxnTs option"
  check_intent_locked :: bool

datatype TxnType = ReadOnlyTxn | ReadWriteTxn

datatype LockManagerType = kCentralized | kDecentralized | kInlined

text \<open>
  \<^verbatim>\<open>btree::SubTable\<close>, the lock table, \<^verbatim>\<open>MarkLocked\<close>, \<^verbatim>\<open>kAbortedTxnTs\<close> and the byte
  encoding \<^verbatim>\<open>as_slice\<close> of a sort key are declared in headers that are not among the
  sources; the context only calls them. They are parameters of the model: \<open>'p\<close> is the
  state of one subtable, \<open>'l\<close> the state of one lock table. A \<^verbatim>\<open>RowView\<close> filled by a
  subtable is the list of the rows found, each with the timestamp \<^verbatim>\<open>GetTs()\<close> of its version.
\<close>

record ('p, 'l) Collaborators =
  st_SetRow :: "Row \<Rightarrow> TxnTs \<Rightarrow> Options \<Rightarrow> 'p \<Rightarrow> Status \<times> 'p"
  st_DeleteRow :: "SortKeys \<Rightarrow> TxnTs \<Rightarrow> Options \<Rightarrow> 'p \<Rightarrow> Status \<times> 'p"
  st_GetRow :: "SortKeys \<Rightarrow> TxnTs \<Rightarrow> Options \<Rightarrow> 'p \<Rightarrow> Status \<times> (Row \<times> TxnTs) list"
  st_SetTs :: "SortKeys \<Rightarrow> TxnTs \<Rightarrow> Options \<Rightarrow> 'p \<Rightarrow> Status \<times> 'p"
  lt_Lock :: "string \<Rightarrow> TxnTs \<Rightarrow> 'l \<Rightarrow> Status \<times> 'l"
  lt_Unlock :: "string \<Rightarrow> TxnTs \<Rightarrow> 'l \<Rightarrow> 'l"
  MarkLocked :: "TxnTs \<Rightarrow> TxnTs"
  kAbortedTxnTs :: TxnTs
  as_slice :: "SortKeys \<Rightarrow> string"

subsection \<open>The context\<close>

text \<open>
  The members of \<^verbatim>\<open>TxnContextOCC\<close> (the trailing underscore of the member names is
  dropped). \<^verbatim>\<open>write_set_\<close>, \<^verbatim>\<open>read_set_\<close> and \<^verbatim>\<open>lock_set_\<close> are containers with unique keys;
  they are lists here, and the order of the list is the order in which the range-for
  loops of the code visit the container. \<^verbatim>\<open>row_owners_\<close> only keeps the copied bytes alive.
  What the context reaches through pointers is part of the state: \<open>tables\<close> gives the
  subtable that \<^verbatim>\<open>GetSubTable_\<close> returns for a key (opening a subtable is taken to
  succeed), \<open>lock_table\<close> is the centralized lock table, \<open>table_locks\<close> the lock table of
  each subtable, and \<open>notified_commit\<close> records the call \<^verbatim>\<open>txn_manager_->Commit(this)\<close>.
\<close>

record ('p, 'l) TxnContextOCC =
  txn_type :: TxnType
  lock_manager_type :: LockManagerType
  read_ts :: TxnTs
  commit_ts :: TxnTs
  write_set :: "((string \<times> SortKeys) \<times> Row option) list"
  read_set :: "((string \<times> SortKeys) \<times> TxnTs option) list"
  lock_set :: "string list"
  lsn :: LsnType
  tables :: "string \<Rightarrow> 'p"
  lock_table :: 'l
  table_locks :: "string \<Rightarrow> 'l"
  notified_commit :: bool

text \<open>A subtable operation on the subtable of a key, with the subtable stored back.\<close>

definition on_table ::
    "('p \<Rightarrow> Status \<times> 'p) \<Rightarrow> string \<Rightarrow> (string \<Rightarrow> 'p) \<Rightarrow> Status \<times> (string \<Rightarrow> 'p)" where
  "on_table f sub_table_key T = (let (s, p) = f (T sub_table_key) in (s, T(sub_table_key := p)))"

definition ExtraceSubTableKey :: "string \<Rightarrow> string" where
  "ExtraceSubTableKey lock_key = takeWhile (\<lambda>c. c \<noteq> CHR ''#'') lock_key"


definition ReleaseLock ::
    "('p, 'l) Collaborators \<Rightarrow> Options \<Rightarrow> ('p, 'l) TxnContextOCC \<Rightarrow> ('p, 'l) TxnContextOCC" where
  "ReleaseLock env opts ctx =
     (case lock_manager_type ctx of
        kCentralized \<Rightarrow>
          ctx\<lparr>lock_table :=
                foldl (\<lambda>lt lock. lt_Unlock env lock (read_ts ctx) lt) (lock_table ctx) (lock_set ctx)\<rparr>
      | kDecentralized \<Rightarrow>
          ctx\<lparr>table_locks :=
                foldl (\<lambda>TL lock. TL(ExtraceSubTableKey lock :=
                                        lt_Unlock env lock (read_ts ctx) (TL (ExtraceSubTableKey lock))))
                  (table_locks ctx) (lock_set ctx)\<rparr>
      | kInlined \<Rightarrow> ctx)"

subsection \<open>SetRow, DeleteRow, GetRow\<close>





subsection \<open>Commit\<close>

text \<open>
  One pass of the loop of \<^verbatim>\<open>WriteIntents_\<close> over the rest of the write set:
  \<open>undo_list\<close> holds the keys written so far.
\<close>

definition write_intent ::
    "('p, 'l) Collaborators \<Rightarrow> Options \<Rightarrow> TxnTs \<Rightarrow> (string \<times> SortKeys) \<times> Row option
      \<Rightarrow> (string \<Rightarrow> 'p) \<Rightarrow> Status \<times> (string \<Rightarrow> 'p)" where
  "write_intent env opts rts kv T =
     (case snd kv of
        Some row \<Rightarrow> on_table (st_SetRow env row (MarkLocked env rts) opts) (fst (fst kv)) T
      | None \<Rightarrow> on_table (st_DeleteRow env (snd (fst kv)) (MarkLocked env rts) opts) (fst (fst kv)) T)"

definition set_ts_all ::
    "('p, 'l) Collaborators \<Rightarrow> Options \<Rightarrow> TxnTs \<Rightarrow> (string \<times> SortKeys) list
      \<Rightarrow> (string \<Rightarrow> 'p) \<Rightarrow> (string \<Rightarrow> 'p)" where
  "set_ts_all env opts ts keys T =
     foldl (\<lambda>T k. snd (on_table (st_SetTs env (snd k) ts opts) (fst k) T)) T keys"

fun WriteIntents_loop ::
    "('p, 'l) Collaborators \<Rightarrow> Options \<Rightarrow> TxnTs \<Rightarrow> (string \<times> SortKeys) list
      \<Rightarrow> ((string \<times> SortKeys) \<times> Row option) list \<Rightarrow> (string \<Rightarrow> 'p)
      \<Rightarrow> Status \<times> (string \<Rightarrow> 'p)" where
  "WriteIntents_loop env opts rts undo_list [] T = (Ok, T)"
| "WriteIntents_loop env opts rts undo_list (kv # rest) T =
     (let (s, T') = write_intent env opts rts kv T in
      if s \<noteq> Ok then (s, set_ts_all env opts (kAbortedTxnTs env) undo_list T')
      else WriteIntents_loop env opts rts (undo_list @ [fst kv]) rest T')"

definition WriteIntents ::
    "('p, 'l) Collaborators \<Rightarrow> Options \<Rightarrow> ('p, 'l) TxnContextOCC
      \<Rightarrow> Status \<times> ('p, 'l) TxnContextOCC" where
  "WriteIntents env opts ctx =
     (let (s, T) = WriteIntents_loop env opts (read_ts ctx) [] (write_set ctx) (tables ctx)
      in (s, ctx\<lparr>tables := T\<rparr>))"

fun ValidateRead_loop ::
    "('p, 'l) Collaborators \<Rightarrow> Options \<Rightarrow> TxnTs \<Rightarrow> (string \<Rightarrow> 'p)
      \<Rightarrow> ((string \<times> SortKeys) \<times> TxnTs option) list \<Rightarrow> fatal + bool" where
  "ValidateRead_loop env tmp_opt cts T [] = Inr True"
| "ValidateRead_loop env tmp_opt cts T ((k, v) # rest) =
     (let (s, view) = st_GetRow env (snd k) cts tmp_opt (T (fst k)) in
      case v of
        Some ts \<Rightarrow>
          if s \<noteq> Ok then Inr False
          else (case view of
                  [] \<Rightarrow> Inl OutOfRange
                | (r, t) # _ \<Rightarrow>
                    if t \<noteq> ts then Inr False else ValidateRead_loop env tmp_opt cts T rest)
      | None \<Rightarrow>
          if s \<noteq> NotFound then Inr False else ValidateRead_loop env tmp_opt cts T rest)"

definition ValidateRead ::
    "('p, 'l) Collaborators \<Rightarrow> Options \<Rightarrow> ('p, 'l) TxnContextOCC \<Rightarrow> fatal + bool" where
  "ValidateRead env opts ctx =
     ValidateRead_loop env (opts\<lparr>owner_ts := Some (read_ts ctx)\<rparr>) (commit_ts ctx) (tables ctx)
       (read_set ctx)"

definition CommitIntents ::
    "('p, 'l) Collaborators \<Rightarrow> Options \<Rightarrow> ('p, 'l) TxnContextOCC \<Rightarrow> ('p, 'l) TxnContextOCC" where
  "CommitIntents env opts ctx =
     ctx\<lparr>tables := set_ts_all env opts (commit_ts ctx) (map fst (write_set ctx)) (tables ctx)\<rparr>"

definition AbortIntents ::
    "('p, 'l) Collaborators \<Rightarrow> Options \<Rightarrow> ('p, 'l) TxnContextOCC \<Rightarrow> ('p, 'l) TxnContextOCC" where
  "AbortIntents env opts ctx =
     ctx\<lparr>tables := set_ts_all env opts (kAbortedTxnTs env) (map fst (write_set ctx)) (tables ctx)\<rparr>"

text \<open>
  \<^verbatim>\<open>CommitOrAbort\<close>. \<open>requested_ts\<close> is what \<^verbatim>\<open>txn_manager_->RequestTs()\<close> returns when it
  is called. The cleanup \<^verbatim>\<open>ReleaseLock_\<close> runs on every path that has created it.
\<close>

definition CommitOrAbort ::
    "('p, 'l) Collaborators \<Rightarrow> Options \<Rightarrow> TxnTs \<Rightarrow> ('p, 'l) TxnContextOCC
      \<Rightarrow> fatal + Status \<times> ('p, 'l) TxnContextOCC" where
  "CommitOrAbort env opts requested_ts ctx =
     (if txn_type ctx = ReadOnlyTxn then Inr (Commit, ctx)
      else let write_intent_opts = opts\<lparr>check_intent_locked := (lock_manager_type ctx = kInlined)\<rparr>;
               (s, ctx1) = WriteIntents env write_intent_opts ctx in
        if s \<noteq> Ok then Inr (Abort, ReleaseLock env opts ctx1)
        else let ctx2 = ctx1\<lparr>commit_ts := requested_ts\<rparr> in
          case ValidateRead env opts ctx2 of
            Inl e \<Rightarrow> Inl e
          | Inr False \<Rightarrow> Inr (Abort, ReleaseLock env opts (AbortIntents env opts ctx2))
          | Inr True \<Rightarrow>
              Inr (Commit, ReleaseLock env opts ((CommitIntents env opts ctx2)\<lparr>notified_commit := True\<rparr>)))"

text \<open>
  The check of one read-set entry in the words of the spec: the subtable is read at the
  commit timestamp with \<open>owner_ts\<close> set to the read timestamp; an entry \<open>Some ts\<close> passes
  when the read succeeds and the first row of the view carries \<open>ts\<close>, an entry \<open>None\<close>
  passes when the read is \<open>NotFound\<close>.
\<close>

definition read_entry_passes ::
    "('p, 'l) Collaborators \<Rightarrow> Options \<Rightarrow> TxnTs \<Rightarrow> TxnTs \<Rightarrow> (string \<Rightarrow> 'p)
      \<Rightarrow> (string \<times> SortKeys) \<times> TxnTs option \<Rightarrow> bool" where
  "read_entry_passes env opts rts cts T kv \<longleftrightarrow>
     (let (s, view) = st_GetRow env (snd (fst kv)) cts (opts\<lparr>owner_ts := Some rts\<rparr>) (T (fst (fst kv)))
      in case snd kv of
           Some ts \<Rightarrow> s = Ok \<and> (case view of [] \<Rightarrow> False | (r, t) # _ \<Rightarrow> t = ts)
         | None \<Rightarrow> s = NotFound)"

text \<open>
  A read that succeeds hands back at least one row; \<^verbatim>\<open>view.at(0)\<close> relies on it.
\<close>

definition view_filled ::
    "('p, 'l) Collaborators \<Rightarrow> Options \<Rightarrow> TxnTs \<Rightarrow> TxnTs \<Rightarrow> (string \<Rightarrow> 'p)
      \<Rightarrow> (string \<times> SortKeys) \<times> TxnTs option \<Rightarrow> bool" where
  "view_filled env opts rts cts T kv \<longleftrightarrow>
     (let (s, view) = st_GetRow env (snd (fst kv)) cts (opts\<lparr>owner_ts := Some rts\<rparr>) (T (fst (fst kv)))
      in s = Ok \<longrightarrow> view \<noteq> [])"

subsection \<open>The durability hooks\<close>

text \<open>
  Modelled from the spec: the records that \<^verbatim>\<open>OccLogWriter\<close> (wal/occ\_log.h, not among the
  sources) collects: \<open>Begin(read_ts)\<close>, \<open>Commit(read_ts, commit_ts)\<close>, \<open>Abort(read_ts)\<close>.
\<close>

datatype OccLogRecord = BeginLog TxnTs | CommitLog TxnTs TxnTs | AbortLog TxnTs

text \<open>
  \<^verbatim>\<open>WriteLogHelper_\<close>: \<open>has_log_store\<close> says that the pointer is not null, \<open>log_records\<close>
  is what \<^verbatim>\<open>func\<close> has written into the log writer. \<^verbatim>\<open>result[0]\<close> on an empty vector is
  an access outside the container.
\<close>

definition WriteLogHelper :: "bool \<Rightarrow> LsnType \<Rightarrow> OccLogRecord list \<Rightarrow> fatal + LsnType" where
  "WriteLogHelper has_log_store l log_records =
     (if \<not> has_log_store then Inr l
      else let result = [];
               (s, result') = AppendLogRecord log_records result
           in case result' of
                [] \<Rightarrow> Inl OutOfRange
              | r # _ \<Rightarrow> Inr (max l (end_lsn r)))"

definition Begin_hook :: "('p, 'l) TxnContextOCC \<Rightarrow> bool \<Rightarrow> fatal + ('p, 'l) TxnContextOCC" where
  "Begin_hook ctx has_log_store =
     (case WriteLogHelper has_log_store (lsn ctx) [BeginLog (read_ts ctx)] of
        Inl e \<Rightarrow> Inl e | Inr l \<Rightarrow> Inr (ctx\<lparr>lsn := l\<rparr>))"

definition Commit_hook :: "('p, 'l) TxnContextOCC \<Rightarrow> bool \<Rightarrow> fatal + ('p, 'l) TxnContextOCC" where
  "Commit_hook ctx has_log_store =
     (case WriteLogHelper has_log_store (lsn ctx) [CommitLog (read_ts ctx) (commit_ts ctx)] of
        Inl e \<Rightarrow> Inl e | Inr l \<Rightarrow> Inr (ctx\<lparr>lsn := l\<rparr>))"

definition Abort_hook :: "('p, 'l) TxnContextOCC \<Rightarrow> bool \<Rightarrow> fatal + ('p, 'l) TxnContextOCC" where
  "Abort_hook ctx has_log_store =
     (case WriteLogHelper has_log_store (lsn ctx) [AbortLog (read_ts ctx)] of
        Inl e \<Rightarrow> Inl e | Inr l \<Rightarrow> Inr (ctx\<lparr>lsn := l\<rparr>))"

section \<open>The versioned delta-chain page\<close>

text \<open>
  Modelled from the spec: the versioned page. versioned\_bwtree\_page.h is not among the
  sources, only its test is, so the page follows sections 3 and 4.1 of the spec. The spec
  names the lock flag of a timestamp, the read timestamp that owns a locked timestamp,
  \<open>kAbortedTxnTs\<close> and the bound \<open>DeltaChainLength\<close> without giving their values; they
  are the fields of \<open>PageConfig\<close>.
\<close>

record PageConfig =
  is_locked :: "TxnTs \<Rightarrow> bool"
  lock_owner :: "TxnTs \<Rightarrow> TxnTs"
  aborted_ts :: TxnTs
  delta_chain_length :: nat

text \<open>
  A delta entry carries one timestamp; a \<open>Base\<close> maps sort keys to a row and its
  timestamp. The chain is ordered newest first.
\<close>

datatype DeltaEntry =
    Insert Row TxnTs
  | Update Row TxnTs
  | Delete SortKeys TxnTs
  | Base "(SortKeys \<times> Row \<times> TxnTs) list"

type_synonym DeltaChain = "DeltaEntry list"

text \<open>
  An entry is skipped by a read when it is aborted, when it is locked by another
  transaction, or when it is not locked and newer than the read timestamp. A locked
  entry is visible to the reader that passes its owner in \<open>owner_ts\<close>, and to a reader
  with \<open>ignore_lock\<close>.
\<close>

definition visible :: "PageConfig \<Rightarrow> Options \<Rightarrow> TxnTs \<Rightarrow> TxnTs \<Rightarrow> bool" where
  "visible cfg opts rts ts \<longleftrightarrow>
     ts \<noteq> aborted_ts cfg \<and>
     (if is_locked cfg ts then ignore_lock opts \<or> owner_ts opts = Some (lock_owner cfg ts)
      else ts \<le> rts)"

fun page_GetRow ::
    "PageConfig \<Rightarrow> SortKeys \<Rightarrow> TxnTs \<Rightarrow> Options \<Rightarrow> DeltaChain \<Rightarrow> Status \<times> (Row \<times> TxnTs) list" where
  "page_GetRow cfg sk rts opts [] = (NotFound, [])"
| "page_GetRow cfg sk rts opts (Insert r ts # rest) =
     (if GetSortKeys r = sk \<and> visible cfg opts rts ts then (Ok, [(r, ts)])
      else page_GetRow cfg sk rts opts rest)"
| "page_GetRow cfg sk rts opts (Update r ts # rest) =
     (if GetSortKeys r = sk \<and> visible cfg opts rts ts then (Ok, [(r, ts)])
      else page_GetRow cfg sk rts opts rest)"
| "page_GetRow cfg sk rts opts (Delete k ts # rest) =
     (if k = sk \<and> visible cfg opts rts ts then (NotFound, [])
      else page_GetRow cfg sk rts opts rest)"
| "page_GetRow cfg sk rts opts (Base m # rest) =
     (case map_of m sk of
        Some (r, ts) \<Rightarrow>
          if visible cfg opts rts ts then (Ok, [(r, ts)]) else page_GetRow cfg sk rts opts rest
      | None \<Rightarrow> page_GetRow cfg sk rts opts rest)"

text \<open>
  Compaction replays the chain from newer to older into a map keyed by sort key: aborted
  and locked entries are ignored, the newest remaining entry of a key wins, and a key
  whose newest entry is a delete is left out of the new \<open>Base\<close>.
\<close>

definition committed :: "PageConfig \<Rightarrow> TxnTs \<Rightarrow> bool" where
  "committed cfg ts \<longleftrightarrow> ts \<noteq> aborted_ts cfg \<and> \<not> is_locked cfg ts"

fun bindings :: "PageConfig \<Rightarrow> DeltaEntry \<Rightarrow> (SortKeys \<times> (Row \<times> TxnTs) option) list" where
  "bindings cfg (Insert r ts) = (if committed cfg ts then [(GetSortKeys r, Some (r, ts))] else [])"
| "bindings cfg (Update r ts) = (if committed cfg ts then [(GetSortKeys r, Some (r, ts))] else [])"
| "bindings cfg (Delete k ts) = (if committed cfg ts then [(k, None)] else [])"
| "bindings cfg (Base m) = map (\<lambda>(k, v). (k, Some v)) m"

definition replay :: "PageConfig \<Rightarrow> DeltaChain \<Rightarrow> (SortKeys \<times> (Row \<times> TxnTs) option) list" where
  "replay cfg chain = concat (map (bindings cfg) chain)"

definition compact :: "PageConfig \<Rightarrow> DeltaChain \<Rightarrow> DeltaChain" where
  "compact cfg chain =
     [Base (List.map_filter
              (\<lambda>k. case map_of (replay cfg chain) k of Some (Some v) \<Rightarrow> Some (k, v) | _ \<Rightarrow> None)
              (remdups (map fst (replay cfg chain))))]"

definition install :: "PageConfig \<Rightarrow> Options \<Rightarrow> DeltaEntry \<Rightarrow> DeltaChain \<Rightarrow> DeltaChain" where
  "install cfg opts e chain =
     (if \<not> disable_compaction opts \<and> delta_chain_length cfg < length (e # chain)
      then compact cfg (e # chain) else e # chain)"

fun entry_ts_of :: "SortKeys \<Rightarrow> DeltaEntry \<Rightarrow> TxnTs option" where
  "entry_ts_of sk (Insert r ts) = (if GetSortKeys r = sk then Some ts else None)"
| "entry_ts_of sk (Update r ts) = (if GetSortKeys r = sk then Some ts else None)"
| "entry_ts_of sk (Delete k ts) = (if k = sk then Some ts else None)"
| "entry_ts_of sk (Base m) = map_option snd (map_of m sk)"

text \<open>
  Under \<open>check_intent_locked\<close> a write finds a conflict when the chain holds, for its sort
  key, an intent that is locked by another transaction and not aborted.
\<close>

definition intent_conflict :: "PageConfig \<Rightarrow> SortKeys \<Rightarrow> TxnTs \<Rightarrow> DeltaChain \<Rightarrow> bool" where
  "intent_conflict cfg sk ts chain \<longleftrightarrow>
     list_ex (\<lambda>e. case entry_ts_of sk e of
                     Some t \<Rightarrow> t \<noteq> aborted_ts cfg \<and> is_locked cfg t
                                 \<and> lock_owner cfg t \<noteq> lock_owner cfg ts
                   | None \<Rightarrow> False) chain"

definition page_SetRow ::
    "PageConfig \<Rightarrow> Row \<Rightarrow> TxnTs \<Rightarrow> Options \<Rightarrow> DeltaChain \<Rightarrow> Status \<times> DeltaChain" where
  "page_SetRow cfg row ts opts chain =
     (if check_intent_locked opts \<and> intent_conflict cfg (GetSortKeys row) ts chain
      then (Conflict, chain)
      else (Ok, install cfg opts
                  (if list_ex (\<lambda>e. entry_ts_of (GetSortKeys row) e \<noteq> None) chain
                   then Update row ts else Insert row ts) chain))"

definition page_DeleteRow ::
    "PageConfig \<Rightarrow> SortKeys \<Rightarrow> TxnTs \<Rightarrow> Options \<Rightarrow> DeltaChain \<Rightarrow> Status \<times> DeltaChain" where
  "page_DeleteRow cfg sk ts opts chain =
     (if check_intent_locked opts \<and> intent_conflict cfg sk ts chain
      then (Conflict, chain)
      else (Ok, install cfg opts (Delete sk ts) chain))"

text \<open>
  \<open>SetTs\<close> rewrites the timestamp of the newest entry that carries a locked intent for
  the sort key.
\<close>

fun page_SetTs_walk :: "PageConfig \<Rightarrow> SortKeys \<Rightarrow> TxnTs \<Rightarrow> DeltaChain \<Rightarrow> DeltaChain option" where
  "page_SetTs_walk cfg sk new_ts [] = None"
| "page_SetTs_walk cfg sk new_ts (Insert r ts # rest) =
     (if GetSortKeys r = sk \<and> is_locked cfg ts then Some (Insert r new_ts # rest)
      else map_option ((#) (Insert r ts)) (page_SetTs_walk cfg sk new_ts rest))"
| "page_SetTs_walk cfg sk new_ts (Update r ts # rest) =
     (if GetSortKeys r = sk \<and> is_locked cfg ts then Some (Update r new_ts # rest)
      else map_option ((#) (Update r ts)) (page_SetTs_walk cfg sk new_ts rest))"
| "page_SetTs_walk cfg sk new_ts (Delete k ts # rest) =
     (if k = sk \<and> is_locked cfg ts then Some (Delete k new_ts # rest)
      else map_option ((#) (Delete k ts)) (page_SetTs_walk cfg sk new_ts rest))"
| "page_SetTs_walk cfg sk new_ts (Base m # rest) =
     map_option ((#) (Base m)) (page_SetTs_walk cfg sk new_ts rest)"

definition page_SetTs ::
    "PageConfig \<Rightarrow> SortKeys \<Rightarrow> TxnTs \<Rightarrow> Options \<Rightarrow> DeltaChain \<Rightarrow> Status \<times> DeltaChain" where
  "page_SetTs cfg sk new_ts opts chain =
     (case page_SetTs_walk cfg sk new_ts chain of
        None \<Rightarrow> (NotFound, chain)
      | Some chain' \<Rightarrow> (Ok, chain'))"

section \<open>A concrete instance\<close>

text \<open>
  An instance of the collaborators on which the operations can be run: every subtable
  is one versioned page, the lock flag is bit 63 of a timestamp, the aborted marker is
  the largest timestamp, and a lock table is a list of held keys with their owners.
\<close>

definition example_cfg :: PageConfig where
  "example_cfg =
     \<lparr>is_locked = (\<lambda>ts. bit ts 63), lock_owner = take_bit 63, aborted_ts = - 1,
      delta_chain_length = 8\<rparr>"

fun value_bytes :: "Value \<Rightarrow> string" where
  "value_bytes (Int64 w) = map (\<lambda>i. char_of (unat (drop_bit (8 * i) w))) [0..<8]"
| "value_bytes (Int32 w) = map (\<lambda>i. char_of (unat (drop_bit (8 * i) w))) [0..<4]"
| "value_bytes (Str s) = s"

definition example_Lock ::
    "string \<Rightarrow> TxnTs \<Rightarrow> (string \<times> TxnTs) list \<Rightarrow> Status \<times> (string \<times> TxnTs) list" where
  "example_Lock k ts lt =
     (case map_of lt k of
        None \<Rightarrow> (Ok, (k, ts) # lt)
      | Some t \<Rightarrow> if t = ts then (Ok, lt) else (Conflict, lt))"

definition example_env :: "(DeltaChain, (string \<times> TxnTs) list) Collaborators" where
  "example_env =
     \<lparr>st_SetRow = page_SetRow example_cfg,
      st_DeleteRow = page_DeleteRow example_cfg,
      st_GetRow = page_GetRow example_cfg,
      st_SetTs = page_SetTs example_cfg,
      lt_Lock = example_Lock,
      lt_Unlock = (\<lambda>k ts lt. filter (\<lambda>p. fst p \<noteq> k) lt),
      MarkLocked = (\<lambda>ts. ts OR push_bit 63 1),
      kAbortedTxnTs = - 1,
      as_slice = (\<lambda>sk. concat (map value_bytes sk))\<rparr>"

definition example_opts :: Options where
  "example_opts =
     \<lparr>disable_compaction = False, ignore_lock = False, owner_ts = None,
      check_intent_locked = False\<rparr>"

text \<open>The rows of the page test: columns (int64, int32, string), two sort-key columns.\<close>

definition hello :: Row where
  "hello = \<lparr>columns = [Int64 0, Int32 0, Str ''hello''], sort_key_count = 2\<rparr>"

definition world :: Row where
  "world = \<lparr>columns = [Int64 1, Int32 0, Str ''world''], sort_key_count = 2\<rparr>"


definition again :: Row where
  "again = \<lparr>columns = [Int64 3, Int32 0, Str ''again''], sort_key_count = 2\<rparr>"

text \<open>A read-write transaction with read timestamp 5 under the inlined lock discipline.\<close>

definition example_ctx :: "(DeltaChain, (string \<times> TxnTs) list) TxnContextOCC" where
  "example_ctx =
     \<lparr>txn_type = ReadWriteTxn, lock_manager_type = kInlined, read_ts = 5, commit_ts = 0,
      write_set = [], read_set = [], lock_set = [], lsn = 0,
      tables = (\<lambda>_. []), lock_table = [], table_locks = (\<lambda>_. []),
      notified_commit = False\<rparr>"

text \<open>
  The transaction has buffered a write of \<open>hello\<close> and a delete to subtable \<open>a\<close> and a
  write of \<open>world\<close> to subtable \<open>c\<close>; it has read \<open>world\<close> at timestamp 3 from subtable
  \<open>b\<close> and has looked for the sort key of \<open>world\<close> in subtable \<open>a\<close> without finding it.
\<close>

definition validating_ctx :: "(DeltaChain, (string \<times> TxnTs) list) TxnContextOCC" where
  "validating_ctx =
     example_ctx\<lparr>write_set := [((''a'', [Int64 0, Int32 0]), Some hello),
                               ((''a'', [Int64 2, Int32 0]), None),
                               ((''c'', [Int64 1, Int32 0]), Some world)],
                 read_set := [((''b'', [Int64 1, Int32 0]), Some 3),
                              ((''a'', [Int64 1, Int32 0]), None)],
                 tables := (\<lambda>_. [])(''b'' := [Insert world 3])\<rparr>"

text \<open>
  The transaction has buffered a write of \<open>world\<close>, a delete, a write of \<open>hello\<close> and a
  write of \<open>again\<close>, all to subtable \<open>a\<close>, in which the transaction with read timestamp
  9 holds an intent on the sort key of \<open>hello\<close>.
\<close>

definition conflicting_ctx :: "(DeltaChain, (string \<times> TxnTs) list) TxnContextOCC" where
  "conflicting_ctx =
     example_ctx\<lparr>write_set := [((''a'', [Int64 1, Int32 0]), Some world),
                               ((''a'', [Int64 2, Int32 0]), None),
                               ((''a'', [Int64 0, Int32 0]), Some hello),
                               ((''a'', [Int64 3, Int32 0]), Some again)],
                 tables := (\<lambda>_. [])(''a'' := [Insert hello 0x8000000000000009])\<rparr>"


section \<open>Properties of the control word\<close>

subsection \<open>Division and remainder\<close>

lemma divmod_decomp:
  fixes q r B :: nat
  assumes "r < B"
  shows "(q * B + r) div B = q" and "(q * B + r) mod B = r"
  using assms by simp_all

lemma divmod_succ:
  fixes x B :: nat
  assumes "x mod B + 1 < B"
  shows "(x + 1) div B = x div B" and "(x + 1) mod B = x mod B + 1"
proof -
  have e: "x + 1 = (x div B) * B + (x mod B + 1)" by simp
  show "(x + 1) div B = x div B"
    by (subst e) (rule divmod_decomp(1) [OF assms])
  show "(x + 1) mod B = x mod B + 1"
    by (subst e) (rule divmod_decomp(2) [OF assms])
qed

lemma divmod_pred:
  fixes x B :: nat
  assumes "0 < x mod B" and "0 < B"
  shows "(x - 1) div B = x div B" and "(x - 1) mod B = x mod B - 1"
proof -
  have "x mod B < B" using assms(2) by simp
  then have lt: "x mod B - 1 < B" by simp
  have "x = (x div B) * B + x mod B" by simp
  then have "x - 1 = (x div B) * B + x mod B - 1" by simp
  also have "\<dots> = (x div B) * B + (x mod B - 1)" using assms(1) by simp
  finally have e: "x - 1 = (x div B) * B + (x mod B - 1)" .
  show "(x - 1) div B = x div B"
    by (subst e) (rule divmod_decomp(1) [OF lt])
  show "(x - 1) mod B = x mod B - 1"
    by (subst e) (rule divmod_decomp(2) [OF lt])
qed

lemma divmod_add_low:
  fixes u A n :: nat
  assumes "u mod A + n < A"
  shows "(u + n) div A = u div A" and "(u + n) mod A = u mod A + n"
proof -
  have e: "u + n = (u div A) * A + (u mod A + n)" by simp
  show "(u + n) div A = u div A"
    by (subst e) (rule divmod_decomp(1) [OF assms])
  show "(u + n) mod A = u mod A + n"
    by (subst e) (rule divmod_decomp(2) [OF assms])
qed

lemma divmod_add_period:
  fixes u A :: nat
  assumes "0 < A"
  shows "(u + A) div A = u div A + 1" and "(u + A) mod A = u mod A"
  using assms by (simp_all add: div_add_self2)

lemma divmod_sub_period:
  fixes u A :: nat
  assumes "A \<le> u" and "0 < A"
  shows "(u - A) div A = u div A - 1" and "(u - A) mod A = u mod A"
  using assms by (simp_all add: le_div_geq le_mod_geq)


lemma unat_GetLsn: "unat (GetLsn w) = unat w mod 2 ^ 48"
proof -
  have "kLsnMaskbit = mask 48" by (simp add: kLsnMaskbit_def mask_eq_exp_minus_1)
  then have "GetLsn w = take_bit 48 w" by (simp only: GetLsn_def take_bit_eq_mask)
  then have "unat (GetLsn w) = take_bit 48 (unat w)" by (simp only: unsigned_take_bit_eq)
  then show ?thesis by (simp only: take_bit_eq_mod)
qed

lemma unat_GetWriterNum: "unat (GetWriterNum w) = unat w div 2 ^ 48 mod 2 ^ 15"
proof -
  have "kWriterNumMaskbit = mask 15" by (simp add: kWriterNumMaskbit_def mask_eq_exp_minus_1)
  then have "GetWriterNum w = take_bit 15 (drop_bit 48 w)"
    by (simp only: GetWriterNum_def kWriterNumOffset_def take_bit_eq_mask)
  then have "unat (GetWriterNum w) = take_bit 15 (drop_bit 48 (unat w))"
    by (simp only: unsigned_take_bit_eq unat_drop_bit_eq)
  then show ?thesis
    by (simp only: take_bit_eq_mod drop_bit_eq_div)
qed

lemma IsSealed_bit: "IsSealed w \<longleftrightarrow> bit w 63"
proof -
  have "drop_bit 63 w AND 1 = of_bool (bit w 63)"
    by (simp add: and_one_eq bit_iff_odd_drop_bit mod_2_eq_odd)
  then show ?thesis by (simp add: IsSealed_def kIsSealedOffset_def kIsSealedMaskbit_def)
qed

lemma IsSealed_unat: "IsSealed w \<longleftrightarrow> odd (unat w div 2 ^ 48 div 2 ^ 15)"
proof -
  have "bit w 63 \<longleftrightarrow> bit (unat w) 63" by (simp add: bit_unsigned_iff)
  also have "\<dots> \<longleftrightarrow> odd (unat w div 2 ^ 63)" by (simp only: bit_iff_odd)
  also have "unat w div 2 ^ 63 = unat w div 2 ^ 48 div 2 ^ 15"
    by (simp only: div_mult2_eq [symmetric] power_add [symmetric]) simp
  finally show ?thesis by (simp only: IsSealed_bit)
qed

lemma unat_u64_bound: "unat (w :: u64) < 2 ^ 48 * 2 ^ 16"
  using unsigned_less [of w, where ?'a = nat] by simp

lemma unat_hi_bound: "unat (w :: u64) div 2 ^ 48 < 2 ^ 16"
  using unat_u64_bound [of w] by (simp only: less_mult_imp_div_less mult.commute)

lemma unat_writer_unit: "unat (push_bit kWriterNumOffset 1 :: u64) = 2 ^ 48"
  by (simp add: kWriterNumOffset_def)

lemma incr_no_overflow:
  fixes u A B :: nat
  assumes u: "u < A * (2 * B)" and A: "0 < A" and c: "(u div A) mod B + 1 < B"
  shows "u + A < A * (2 * B)"
proof -
  define x where "x = u div A"
  have "x < 2 * B" using u unfolding x_def by (simp add: less_mult_imp_div_less mult.commute)
  then have "x div B < 2" by (simp add: less_mult_imp_div_less)
  then have "(x div B) * B \<le> 1 * B" by (intro mult_le_mono1) simp
  moreover have "x = (x div B) * B + x mod B" by simp
  ultimately have "x \<le> B + x mod B" by linarith
  with c have "x + 2 \<le> 2 * B" unfolding x_def by linarith
  then have "(x + 2) * A \<le> (2 * B) * A" by (rule mult_le_mono1)
  moreover have "u mod A < A" using A by simp
  moreover have "u = x * A + u mod A" unfolding x_def by simp
  ultimately show ?thesis by (simp add: algebra_simps)
qed

subsection \<open>Fields of the control word\<close>

lemma wrap_add_low:
  fixes u n A K v :: nat
  assumes u: "u < A * K" and v: "v = (u mod A + n) mod (A * K)" and vA: "v < A"
  shows "(u + n) mod (A * K) = (u div A) * A + v"
proof -
  have "u div A < K" using u by (simp add: less_mult_imp_div_less mult.commute)
  then have "u div A + 1 \<le> K" by simp
  then have "(u div A + 1) * A \<le> K * A" by (rule mult_le_mono1)
  with vA have small: "(u div A) * A + v < A * K" by (simp add: algebra_simps)
  have "u + n = (u div A) * A + (u mod A + n)" by simp
  then have "(u + n) mod (A * K) = ((u div A) * A + (u mod A + n)) mod (A * K)" by simp
  also have "\<dots> = ((u div A) * A + (u mod A + n) mod (A * K)) mod (A * K)"
    by (simp only: mod_add_right_eq)
  also have "\<dots> = ((u div A) * A + v) mod (A * K)" by (simp only: v)
  also have "\<dots> = (u div A) * A + v" using small by simp
  finally show ?thesis .
qed

lemma unat_IncrWriterNum:
  assumes "unat (GetWriterNum w) + 1 < 2 ^ 15"
  shows "unat (IncrWriterNum w) = unat w + 2 ^ 48"
proof -
  have "unat w < 2 ^ 48 * (2 * 2 ^ 15)" using unat_u64_bound [of w] by simp
  moreover have "unat w div 2 ^ 48 mod 2 ^ 15 + 1 < 2 ^ 15"
    using assms by (simp only: unat_GetWriterNum)
  ultimately have "unat w + 2 ^ 48 < 2 ^ 48 * (2 * 2 ^ 15)"
    by (intro incr_no_overflow) simp_all
  then have "unat w + unat (push_bit kWriterNumOffset 1 :: u64) < 2 ^ LENGTH(64)"
    unfolding unat_writer_unit by simp
  then have "unat (w + push_bit kWriterNumOffset 1) = unat w + unat (push_bit kWriterNumOffset 1 :: u64)"
    by (simp only: unat_add_lem)
  then show ?thesis by (simp only: IncrWriterNum_def unat_writer_unit)
qed


lemma IncrWriterNum_fields:
  assumes "unat (GetWriterNum w) + 1 < 2 ^ 15"
  shows "unat (GetWriterNum (IncrWriterNum w)) = unat (GetWriterNum w) + 1"
    and "GetLsn (IncrWriterNum w) = GetLsn w"
    and "IsSealed (IncrWriterNum w) \<longleftrightarrow> IsSealed w"
proof -
  note u = unat_IncrWriterNum [OF assms]
  have c: "unat w div 2 ^ 48 mod 2 ^ 15 + 1 < 2 ^ 15"
    using assms by (simp only: unat_GetWriterNum)
  have d: "(unat w + 2 ^ 48) div 2 ^ 48 = unat w div 2 ^ 48 + 1"
    by (rule divmod_add_period) simp
  have m: "(unat w + 2 ^ 48) mod 2 ^ 48 = unat w mod 2 ^ 48"
    by (rule divmod_add_period) simp
  show "unat (GetWriterNum (IncrWriterNum w)) = unat (GetWriterNum w) + 1"
    by (simp only: unat_GetWriterNum u d divmod_succ(2) [OF c])
  have "unat (GetLsn (IncrWriterNum w)) = unat (GetLsn w)"
    by (simp only: unat_GetLsn u m)
  then show "GetLsn (IncrWriterNum w) = GetLsn w"
    by (simp only: word_unat_eq_iff)
  show "IsSealed (IncrWriterNum w) \<longleftrightarrow> IsSealed w"
    by (simp only: IsSealed_unat u d divmod_succ(1) [OF c])
qed

lemma unat_DecrWriterNum:
  assumes "0 < unat (GetWriterNum w)"
  shows "unat (DecrWriterNum w) = unat w - 2 ^ 48" and "2 ^ 48 \<le> unat w"
proof -
  have "0 < unat w div 2 ^ 48 mod 2 ^ 15"
    using assms by (simp only: unat_GetWriterNum)
  then have "0 < unat w div 2 ^ 48" by (cases "unat w div 2 ^ 48 = 0") simp_all
  then show ge: "2 ^ 48 \<le> unat w" by (simp add: div_greater_zero_iff)
  then have "push_bit kWriterNumOffset 1 \<le> w"
    by (simp only: word_le_nat_alt unat_writer_unit)
  then have "unat (w - push_bit kWriterNumOffset 1) = unat w - unat (push_bit kWriterNumOffset 1 :: u64)"
    by (rule unat_sub)
  then show "unat (DecrWriterNum w) = unat w - 2 ^ 48"
    by (simp only: DecrWriterNum_def unat_writer_unit)
qed

lemma DecrWriterNum_fields:
  assumes "0 < unat (GetWriterNum w)"
  shows "unat (GetWriterNum (DecrWriterNum w)) = unat (GetWriterNum w) - 1"
    and "GetLsn (DecrWriterNum w) = GetLsn w"
    and "IsSealed (DecrWriterNum w) \<longleftrightarrow> IsSealed w"
proof -
  note u = unat_DecrWriterNum(1) [OF assms] and ge = unat_DecrWriterNum(2) [OF assms]
  have c: "0 < unat w div 2 ^ 48 mod 2 ^ 15"
    using assms by (simp only: unat_GetWriterNum)
  have p: "(0::nat) < 2 ^ 15" by simp
  have d: "(unat w - 2 ^ 48) div 2 ^ 48 = unat w div 2 ^ 48 - 1"
    using ge by (rule divmod_sub_period) simp
  have m: "(unat w - 2 ^ 48) mod 2 ^ 48 = unat w mod 2 ^ 48"
    using ge by (rule divmod_sub_period) simp
  show "unat (GetWriterNum (DecrWriterNum w)) = unat (GetWriterNum w) - 1"
    by (simp only: unat_GetWriterNum u d divmod_pred(2) [OF c p])
  have "unat (GetLsn (DecrWriterNum w)) = unat (GetLsn w)"
    by (simp only: unat_GetLsn u m)
  then show "GetLsn (DecrWriterNum w) = GetLsn w"
    by (simp only: word_unat_eq_iff)
  show "IsSealed (DecrWriterNum w) \<longleftrightarrow> IsSealed w"
    by (simp only: IsSealed_unat u d divmod_pred(1) [OF c p])
qed


lemma unat_BumpLsn:
  assumes "unat (GetLsn w + len) < 2 ^ 48"
  shows "unat (BumpLsn w len) = (unat w div 2 ^ 48) * 2 ^ 48 + unat (GetLsn w + len)"
proof -
  have v: "unat (GetLsn w + len) = (unat w mod 2 ^ 48 + unat len) mod (2 ^ 48 * 2 ^ 16)"
    by (simp add: unat_word_ariths unat_GetLsn)
  have "unat (BumpLsn w len) = (unat w + unat len) mod (2 ^ 48 * 2 ^ 16)"
    by (simp add: BumpLsn_def unat_word_ariths)
  also have "\<dots> = (unat w div 2 ^ 48) * 2 ^ 48 + unat (GetLsn w + len)"
    using unat_u64_bound v assms by (rule wrap_add_low)
  finally show ?thesis .
qed

lemma BumpLsn_fields:
  assumes "unat (GetLsn w + len) < 2 ^ 48"
  shows "GetLsn (BumpLsn w len) = GetLsn w + len"
    and "GetWriterNum (BumpLsn w len) = GetWriterNum w"
    and "IsSealed (BumpLsn w len) \<longleftrightarrow> IsSealed w"
proof -
  note u = unat_BumpLsn [OF assms]
  have d: "(unat w div 2 ^ 48 * 2 ^ 48 + unat (GetLsn w + len)) div 2 ^ 48 = unat w div 2 ^ 48"
    using assms by (rule divmod_decomp)
  have m: "(unat w div 2 ^ 48 * 2 ^ 48 + unat (GetLsn w + len)) mod 2 ^ 48 = unat (GetLsn w + len)"
    using assms by (rule divmod_decomp)
  have "unat (GetLsn (BumpLsn w len)) = unat (GetLsn w + len)"
    by (simp only: unat_GetLsn u m)
  then show "GetLsn (BumpLsn w len) = GetLsn w + len"
    by (simp only: word_unat_eq_iff)
  have "unat (GetWriterNum (BumpLsn w len)) = unat (GetWriterNum w)"
    by (simp only: unat_GetWriterNum u d)
  then show "GetWriterNum (BumpLsn w len) = GetWriterNum w"
    by (simp only: word_unat_eq_iff)
  show "IsSealed (BumpLsn w len) \<longleftrightarrow> IsSealed w"
    by (simp only: IsSealed_unat u d)
qed

lemma MarkSealed_fields:
  shows "IsSealed (MarkSealed w)"
    and "GetWriterNum (MarkSealed w) = GetWriterNum w"
    and "GetLsn (MarkSealed w) = GetLsn w"
    and "bit (MarkSealed w) n \<longleftrightarrow> n = 63 \<or> bit w n"
proof -
  show b: "bit (MarkSealed w) n \<longleftrightarrow> n = 63 \<or> bit w n" for n
  proof -
    have "bit (MarkSealed w) n \<longleftrightarrow> bit w n \<or> (63 \<le> n \<and> n < LENGTH(64) \<and> n - 63 = 0)"
      by (simp only: MarkSealed_def kIsSealedOffset_def bit_or_iff bit_push_bit_iff bit_1_iff
          possible_bit_word)
    then show ?thesis by auto
  qed
  show "IsSealed (MarkSealed w)" by (simp add: IsSealed_bit b)
  have km: "kWriterNumMaskbit = mask 15" by (simp add: kWriterNumMaskbit_def mask_eq_exp_minus_1)
  show "GetWriterNum (MarkSealed w) = GetWriterNum w"
    unfolding GetWriterNum_def kWriterNumOffset_def km
    by (intro bit_eqI) (auto simp: bit_simps b)
  have lm: "kLsnMaskbit = mask 48" by (simp add: kLsnMaskbit_def mask_eq_exp_minus_1)
  show "GetLsn (MarkSealed w) = GetLsn w"
    unfolding GetLsn_def lm
    by (intro bit_eqI) (auto simp: bit_simps b)
qed

subsection \<open>The compare-and-swap loops\<close>

lemma DecrWriterNum_neq: "DecrWriterNum w \<noteq> w"
  by (simp add: DecrWriterNum_def kWriterNumOffset_def)

lemma MarkSealed_neq: "\<not> IsSealed w \<Longrightarrow> MarkSealed w \<noteq> w"
  using MarkSealed_fields(1) [of w] by auto

lemma OnWriterExit_loop_exchange_fails:
  assumes "cb \<noteq> cur"
  shows "OnWriterExit_loop cb cur b =
     Some (b \<or> (GetWriterNum (DecrWriterNum cur) \<noteq> 0 \<and> IsSealed cur), cb)"
  using assms
  by (subst OnWriterExit_loop.simps) (auto simp: compare_exchange_weak_def Let_def)

lemma OnWriterExit_loop_exchange_succeeds:
  "OnWriterExit_loop cb cb b =
     OnWriterExit_loop (DecrWriterNum cb) cb
       (b \<or> (GetWriterNum (DecrWriterNum cb) \<noteq> 0 \<and> IsSealed cb))"
  by (subst OnWriterExit_loop.simps) (auto simp: compare_exchange_weak_def Let_def)

lemma OnWriterExit_loop_returns:
  "OnWriterExit_loop cb cb b =
     Some (b \<or> (GetWriterNum (DecrWriterNum cb) \<noteq> 0 \<and> IsSealed cb), DecrWriterNum cb)"
  by (simp add: OnWriterExit_loop_exchange_succeeds [of cb b]
      OnWriterExit_loop_exchange_fails [OF DecrWriterNum_neq])

lemma OnWriterExit_returns:
  "OnWriterExit seg =
     Some (seg\<lparr>control_bits := DecrWriterNum (control_bits seg),
               state := (if GetWriterNum (DecrWriterNum (control_bits seg)) \<noteq> 0
                            \<and> IsSealed (control_bits seg)
                         then kIo else state seg)\<rparr>)"
  by (simp add: OnWriterExit_def OnWriterExit_loop_returns)

lemma TrySealLogSegment_loop_exchange_fails:
  assumes "cb \<noteq> cur" and "\<not> IsSealed cur"
  shows "TrySealLogSegment_loop cb cur = Some (Some (GetLsn (MarkSealed cur)), cb)"
  using assms
  by (subst TrySealLogSegment_loop.simps) (simp add: compare_exchange_weak_def Let_def)

lemma TrySealLogSegment_loop_returns:
  "TrySealLogSegment_loop cb cb =
     (if IsSealed cb then Some (None, cb)
      else Some (Some (GetLsn (MarkSealed cb)), MarkSealed cb))"
  by (subst TrySealLogSegment_loop.simps)
    (simp add: compare_exchange_weak_def Let_def MarkSealed_neq
      TrySealLogSegment_loop_exchange_fails)

lemma TrySealLogSegment_returns:
  "TrySealLogSegment seg =
     Some (if state seg \<noteq> kOpen then Inl CheckFailed
           else if IsSealed (control_bits seg) then Inr (None, seg)
           else Inr (Some (GetLsn (control_bits seg)),
                     seg\<lparr>control_bits := MarkSealed (control_bits seg)\<rparr>))"
  by (simp add: TrySealLogSegment_def TrySealLogSegment_loop_returns MarkSealed_fields(3))

lemma not_must_wait_unat:
  assumes "\<not> must_wait cb"
  shows "unat (GetWriterNum cb) + 1 < 2 ^ 15"
proof -
  have b: "unat (GetWriterNum cb) < 2 ^ 15"
    by (simp only: unat_GetWriterNum) simp
  then have "unat (GetWriterNum cb) + unat (1 :: u64) < 2 ^ LENGTH(64)" by simp
  then have "unat (GetWriterNum cb + 1) = unat (GetWriterNum cb) + 1"
    by (simp only: unat_add_lem) simp
  moreover have "unat (GetWriterNum cb + 1) \<le> unat kMaximumWriterNum"
    using assms unfolding must_wait_def not_less word_le_nat_alt .
  moreover have "unat kMaximumWriterNum = 2 ^ 15 - 1"
    by (simp add: kMaximumWriterNum_def kWriterNumMaskbit_def)
  ultimately show ?thesis by simp
qed

lemma acquire_new_fields:
  assumes sz: "unat sz < 2 ^ 48" and s: "\<not> must_seal sz len cb" and w: "\<not> must_wait cb"
  shows "GetLsn (BumpLsn (IncrWriterNum cb) len) = GetLsn cb + len"
    and "unat (GetWriterNum (BumpLsn (IncrWriterNum cb) len)) = unat (GetWriterNum cb) + 1"
    and "IsSealed (BumpLsn (IncrWriterNum cb) len) \<longleftrightarrow> IsSealed cb"
proof -
  note i = IncrWriterNum_fields [OF not_must_wait_unat [OF w]]
  have "unat (GetLsn cb + len) \<le> unat sz"
    using s unfolding must_seal_def not_less word_le_nat_alt .
  with sz have "unat (GetLsn (IncrWriterNum cb) + len) < 2 ^ 48"
    by (simp add: i(2))
  note b = BumpLsn_fields [OF this]
  show "GetLsn (BumpLsn (IncrWriterNum cb) len) = GetLsn cb + len"
    by (simp only: b(1) i(2))
  show "unat (GetWriterNum (BumpLsn (IncrWriterNum cb) len)) = unat (GetWriterNum cb) + 1"
    by (simp only: b(2) i(1))
  show "IsSealed (BumpLsn (IncrWriterNum cb) len) \<longleftrightarrow> IsSealed cb"
    by (simp only: b(3) i(3))
qed

lemma acquire_new_neq:
  assumes "unat sz < 2 ^ 48" and "\<not> must_seal sz len cb" and "\<not> must_wait cb"
  shows "BumpLsn (IncrWriterNum cb) len \<noteq> cb"
  using acquire_new_fields(2) [OF assms] by auto

lemma AcquireControlGuard_loop_exchange_fails:
  assumes "cb \<noteq> cur" and "\<not> must_seal sz len cur" and "\<not> must_wait cur"
  shows "AcquireControlGuard_loop sz len cb cur = Some ((Some (), False), cb)"
  using assms
  by (subst AcquireControlGuard_loop.simps)
    (simp add: compare_exchange_weak_def Let_def must_seal_def must_wait_def)

lemma AcquireControlGuard_loop_returns:
  assumes "unat sz < 2 ^ 48"
  shows "AcquireControlGuard_loop sz len cb cb =
     Some (if must_seal sz len cb then ((None, True), cb)
           else if must_wait cb then ((None, False), cb)
           else ((Some (), False), BumpLsn (IncrWriterNum cb) len))"
proof (cases "must_seal sz len cb \<or> must_wait cb")
  case True
  then show ?thesis
    by (subst AcquireControlGuard_loop.simps) (auto simp: Let_def must_seal_def must_wait_def)
next
  case False
  then have s: "\<not> must_seal sz len cb" and w: "\<not> must_wait cb" by simp_all
  have "AcquireControlGuard_loop sz len cb cb =
      AcquireControlGuard_loop sz len (BumpLsn (IncrWriterNum cb) len) cb"
    using s w
    by (subst AcquireControlGuard_loop.simps)
      (simp add: compare_exchange_weak_def Let_def must_seal_def must_wait_def)
  also have "\<dots> = Some ((Some (), False), BumpLsn (IncrWriterNum cb) len)"
    using acquire_new_neq [OF assms s w] s w by (rule AcquireControlGuard_loop_exchange_fails)
  finally show ?thesis using s w by simp
qed

subsection \<open>What the segment operations return\<close>

lemma AcquireControlGuard_cas_returns:
  assumes "unat (size_seg seg) < 2 ^ 48"
  shows "AcquireControlGuard_cas seg len =
     Some (if must_seal (size_seg seg) len (control_bits seg) then ((None, True), seg)
           else if must_wait (control_bits seg) then ((None, False), seg)
           else ((Some (), False),
                 seg\<lparr>control_bits := BumpLsn (IncrWriterNum (control_bits seg)) len\<rparr>))"
  by (simp add: AcquireControlGuard_cas_def AcquireControlGuard_loop_returns [OF assms])

lemma AcquireControlGuard_returns:
  assumes "unat (size_seg seg) < 2 ^ 48"
  shows "AcquireControlGuard seg len =
     Some (if must_seal (size_seg seg) len (control_bits seg) then ((None, True), seg)
           else if must_wait (control_bits seg) then ((None, False), seg)
           else ((Some (), False),
                 seg\<lparr>control_bits :=
                       DecrWriterNum (BumpLsn (IncrWriterNum (control_bits seg)) len),
                     state :=
                       (if GetWriterNum (DecrWriterNum (BumpLsn (IncrWriterNum (control_bits seg)) len)) \<noteq> 0
                           \<and> IsSealed (BumpLsn (IncrWriterNum (control_bits seg)) len)
                        then kIo else state seg)\<rparr>))"
  by (simp add: AcquireControlGuard_def AcquireControlGuard_cas_returns [OF assms]
      OnWriterExit_returns)

lemma AcquireControlGuard_writer_count_restored:
  assumes sz: "unat sz < 2 ^ 48" and s: "\<not> must_seal sz len cb" and w: "\<not> must_wait cb"
  shows "GetWriterNum (DecrWriterNum (BumpLsn (IncrWriterNum cb) len)) = GetWriterNum cb"
    and "GetLsn (DecrWriterNum (BumpLsn (IncrWriterNum cb) len)) = GetLsn cb + len"
    and "IsSealed (DecrWriterNum (BumpLsn (IncrWriterNum cb) len)) \<longleftrightarrow> IsSealed cb"
proof -
  note n = acquire_new_fields [OF sz s w]
  have pos: "0 < unat (GetWriterNum (BumpLsn (IncrWriterNum cb) len))"
    by (simp add: n(2))
  note d = DecrWriterNum_fields [OF pos]
  have "unat (GetWriterNum (DecrWriterNum (BumpLsn (IncrWriterNum cb) len))) = unat (GetWriterNum cb)"
    by (simp add: d(1) n(2))
  then show "GetWriterNum (DecrWriterNum (BumpLsn (IncrWriterNum cb) len)) = GetWriterNum cb"
    by (simp only: word_unat_eq_iff)
  show "GetLsn (DecrWriterNum (BumpLsn (IncrWriterNum cb) len)) = GetLsn cb + len"
    by (simp only: d(2) n(1))
  show "IsSealed (DecrWriterNum (BumpLsn (IncrWriterNum cb) len)) \<longleftrightarrow> IsSealed cb"
    by (simp only: d(3) n(3))
qed

lemma GetLsn_DecrWriterNum: "GetLsn (DecrWriterNum w) = GetLsn w"
proof -
  have u: "unat (DecrWriterNum w) =
      (if 2 ^ 48 \<le> unat w then unat w - 2 ^ 48 else unat w + 2 ^ 64 - 2 ^ 48)"
    unfolding DecrWriterNum_def
    by (simp only: unat_sub_if_size unat_writer_unit word_size) simp
  have "unat (DecrWriterNum w) mod 2 ^ 48 = unat w mod 2 ^ 48"
  proof (cases "(2::nat) ^ 48 \<le> unat w")
    case True
    then have "(unat w - 2 ^ 48) mod 2 ^ 48 = unat w mod 2 ^ 48"
      by (rule divmod_sub_period) simp
    with True show ?thesis by (simp only: u if_True)
  next
    case False
    have "unat w + 2 ^ 64 - 2 ^ 48 = unat w + (2 ^ 16 - 1) * 2 ^ 48" by simp
    moreover have "(unat w + (2 ^ 16 - 1) * 2 ^ 48) mod 2 ^ 48 = unat w mod 2 ^ 48"
      by (rule mod_mult_self1)
    ultimately show ?thesis using False by (simp only: u if_False)
  qed
  then have "unat (GetLsn (DecrWriterNum w)) = unat (GetLsn w)"
    by (simp only: unat_GetLsn)
  then show ?thesis by (simp only: word_unat_eq_iff)
qed

lemma OnWriterExit_keeps_offset:
  "OnWriterExit seg = Some seg' \<Longrightarrow> GetLsn (control_bits seg') = GetLsn (control_bits seg)"
  by (auto simp: OnWriterExit_returns GetLsn_DecrWriterNum)

lemma TrySealLogSegment_keeps_offset:
  "TrySealLogSegment seg = Some (Inr (r, seg')) \<Longrightarrow>
     GetLsn (control_bits seg') = GetLsn (control_bits seg)"
  by (auto simp: TrySealLogSegment_returns MarkSealed_fields(3) split: if_splits)

subsection \<open>The packed layout\<close>

text \<open>
  Claim C9. The accessors realise the layout [IsSealed:1 | WriterCount:15 | NextLsnOffset:48]:
  for every 64-bit word, \<^verbatim>\<open>GetLsn_\<close> is the word modulo \<open>2 ^ 48\<close>, \<^verbatim>\<open>GetWriterNum_\<close> is the word
  shifted right by 48 modulo \<open>2 ^ 15\<close>, and \<^verbatim>\<open>IsSealed_\<close> is bit 63. When the writer count
  is below \<open>2 ^ 15 - 1\<close>, \<^verbatim>\<open>IncrWriterNum_\<close> adds one to it and leaves the other two fields
  alone; when it is positive, \<^verbatim>\<open>DecrWriterNum_\<close> takes one from it and leaves the other two
  alone; when the offset plus the length stays below \<open>2 ^ 48\<close>, \<^verbatim>\<open>BumpLsn_\<close> adds the length
  to the offset and leaves the other two alone; \<^verbatim>\<open>MarkSealed_\<close> sets bit 63 and changes no
  other bit.
\<close>

theorem control_word_layout:
  "unat (GetLsn w) = unat w mod 2 ^ 48 \<and>
   unat (GetWriterNum w) = unat w div 2 ^ 48 mod 2 ^ 15 \<and>
   (IsSealed w \<longleftrightarrow> bit w 63) \<and>
   (unat (GetWriterNum w) + 1 < 2 ^ 15 \<longrightarrow>
      unat (GetWriterNum (IncrWriterNum w)) = unat (GetWriterNum w) + 1 \<and>
      GetLsn (IncrWriterNum w) = GetLsn w \<and>
      (IsSealed (IncrWriterNum w) \<longleftrightarrow> IsSealed w)) \<and>
   (0 < unat (GetWriterNum w) \<longrightarrow>
      unat (GetWriterNum (DecrWriterNum w)) = unat (GetWriterNum w) - 1 \<and>
      GetLsn (DecrWriterNum w) = GetLsn w \<and>
      (IsSealed (DecrWriterNum w) \<longleftrightarrow> IsSealed w)) \<and>
   (unat (GetLsn w) + unat len < 2 ^ 48 \<longrightarrow>
      unat (GetLsn (BumpLsn w len)) = unat (GetLsn w) + unat len \<and>
      GetWriterNum (BumpLsn w len) = GetWriterNum w \<and>
      (IsSealed (BumpLsn w len) \<longleftrightarrow> IsSealed w)) \<and>
   (\<forall>n. bit (MarkSealed w) n \<longleftrightarrow> n = 63 \<or> bit w n)"
proof -
  have bump: "unat (GetLsn (BumpLsn w len)) = unat (GetLsn w) + unat len \<and>
      GetWriterNum (BumpLsn w len) = GetWriterNum w \<and>
      (IsSealed (BumpLsn w len) \<longleftrightarrow> IsSealed w)"
    if h: "unat (GetLsn w) + unat len < 2 ^ 48"
  proof -
    have "unat (GetLsn w) + unat len < 2 ^ LENGTH(64)"
      using h by simp
    then have e: "unat (GetLsn w + len) = unat (GetLsn w) + unat len"
      by (simp only: unat_add_lem)
    with h have "unat (GetLsn w + len) < 2 ^ 48" by simp
    from BumpLsn_fields [OF this] e show ?thesis by simp
  qed
  show ?thesis
    using unat_GetLsn [of w] unat_GetWriterNum [of w] IsSealed_bit [of w]
      IncrWriterNum_fields [of w] DecrWriterNum_fields [of w] bump MarkSealed_fields(4) [of w]
    by blast
qed

theorem control_word_layout_witness:
  "unat (GetWriterNum 0x1000000000005) + 1 < 2 ^ 15 \<and>
   0 < unat (GetWriterNum 0x1000000000005) \<and>
   unat (GetLsn 0x1000000000005) + unat (3 :: u64) < 2 ^ 48 \<and>
   unat (GetWriterNum (IncrWriterNum 0x1000000000005)) = 2 \<and>
   unat (GetWriterNum (DecrWriterNum 0x1000000000005)) = 0 \<and>
   unat (GetLsn (BumpLsn 0x1000000000005 3)) = 8 \<and>
   bit (MarkSealed 0x1000000000005) 63"
proof -
  have w: "unat (GetWriterNum 0x1000000000005) = 1"
    by (simp add: GetWriterNum_def kWriterNumOffset_def kWriterNumMaskbit_def)
  have l: "unat (GetLsn 0x1000000000005) = 5"
    by (simp add: GetLsn_def kLsnMaskbit_def)
  show ?thesis
    using control_word_layout [of "0x1000000000005" 3] by (simp add: w l)
qed

section \<open>The segment operations on concrete segments\<close>

text \<open>
  Claim C3. \<^verbatim>\<open>OnWriterExit\<close> decrements the writer count and is to move the segment from
  \<open>kOpen\<close> to \<open>kIo\<close> exactly when the count after the decrement is 0 and the segment is
  sealed. The code computes \<^verbatim>\<open>is_last_writer\<close> as the conversion of the new writer count
  to \<^verbatim>\<open>bool\<close>, which is true when writers remain. On a sealed open segment with one
  writer the count drops to 0 and the state stays \<open>kOpen\<close>; with two writers the count
  drops to 1 and the state becomes \<open>kIo\<close>.
\<close>

theorem OnWriterExit_last_writer_stays_open:
  "OnWriterExit \<lparr>state = kOpen, size_seg = 1024, start_lsn = 0, control_bits = 0x8001000000000064\<rparr>
     = Some \<lparr>state = kOpen, size_seg = 1024, start_lsn = 0, control_bits = 0x8000000000000064\<rparr>
   \<and> IsSealed 0x8000000000000064 \<and> GetWriterNum 0x8000000000000064 = 0
   \<and> OnWriterExit \<lparr>state = kOpen, size_seg = 1024, start_lsn = 0, control_bits = 0x8002000000000064\<rparr>
     = Some \<lparr>state = kIo, size_seg = 1024, start_lsn = 0, control_bits = 0x8001000000000064\<rparr>
   \<and> GetWriterNum 0x8001000000000064 = 1"
  by code_simp

text \<open>
  Claim C4. Once the sealed bit is set, the offset field is not to change. A segment of
  size 1024 is created, opened at LSN 0 and sealed with offset 0;
  \<^verbatim>\<open>AcquireControlGuard(10)\<close> then returns a guard and the control word is still sealed
  with offset 10: \<^verbatim>\<open>AcquireControlGuard\<close> never tests the sealed bit.
\<close>

theorem sealed_segment_offset_advances:
  "OpenLogSegmentAndSetLsn (new_LogSegment 1024) 0
     = Inr \<lparr>state = kOpen, size_seg = 1024, start_lsn = 0, control_bits = 0\<rparr>
   \<and> TrySealLogSegment \<lparr>state = kOpen, size_seg = 1024, start_lsn = 0, control_bits = 0\<rparr>
     = Some (Inr (Some 0, \<lparr>state = kOpen, size_seg = 1024, start_lsn = 0,
                            control_bits = 0x8000000000000000\<rparr>))
   \<and> IsSealed 0x8000000000000000 \<and> GetLsn 0x8000000000000000 = 0
   \<and> AcquireControlGuard \<lparr>state = kOpen, size_seg = 1024, start_lsn = 0,
                            control_bits = 0x8000000000000000\<rparr> 10
     = Some ((Some (), False), \<lparr>state = kOpen, size_seg = 1024, start_lsn = 0,
                                  control_bits = 0x800000000000000A\<rparr>)
   \<and> IsSealed 0x800000000000000A \<and> GetLsn 0x800000000000000A = 10"
  by code_simp

text \<open>
  Claim C6. When neither test of \<^verbatim>\<open>AcquireControlGuard\<close> fires, the caller is to get a
  guard and a control word with the writer count raised by one and the offset raised by
  the length. On an open segment of size 1024 with control word 0 and length 100 a guard
  is returned and the control word is 100: the offset is 100 and the writer count is 0,
  as before the call, because the temporary guard of the return statement has already
  run \<^verbatim>\<open>OnWriterExit\<close>.
\<close>

theorem AcquireControlGuard_writer_count_not_raised:
  "AcquireControlGuard \<lparr>state = kOpen, size_seg = 1024, start_lsn = 0, control_bits = 0\<rparr> 100
     = Some ((Some (), False), \<lparr>state = kOpen, size_seg = 1024, start_lsn = 0, control_bits = 100\<rparr>)
   \<and> GetWriterNum 0 = 0 \<and> GetWriterNum 100 = 0 \<and> GetLsn 100 = 100"
  by code_simp

text \<open>
  Claim C5. \<^verbatim>\<open>TrySealLogSegment\<close> is to return the final offset of the segment translated
  into an LSN with \<open>start_lsn\<close>, so that the segment opened by \<^verbatim>\<open>SealAndOpen\<close> starts at
  the sealed segment's \<open>start_lsn\<close> plus its sealed offset. The code returns the offset
  alone. In a ring of three segments of size 1024 whose first segment was opened at 0 and
  sealed at offset 50, the second segment starts at 50 and holds 30 bytes: sealing it
  returns 30, and the third segment is opened with \<open>start_lsn = 30\<close>, not \<open>50 + 30\<close>.
\<close>

theorem sealed_lsn_not_translated:
  "TrySealLogSegment \<lparr>state = kOpen, size_seg = 1024, start_lsn = 50, control_bits = 30\<rparr>
     = Some (Inr (Some 30, \<lparr>state = kOpen, size_seg = 1024, start_lsn = 50,
                             control_bits = 0x800000000000001E\<rparr>))
   \<and> SealAndOpen
       \<lparr>segments =
          [\<lparr>state = kOpen, size_seg = 1024, start_lsn = 0, control_bits = 0x8000000000000032\<rparr>,
           \<lparr>state = kOpen, size_seg = 1024, start_lsn = 50, control_bits = 30\<rparr>,
           \<lparr>state = kFree, size_seg = 1024, start_lsn = 0, control_bits = 0\<rparr>],
        current_log_segment = 1\<rparr> 1
     = Some (Inr (True,
         \<lparr>segments =
            [\<lparr>state = kOpen, size_seg = 1024, start_lsn = 0, control_bits = 0x8000000000000032\<rparr>,
             \<lparr>state = kOpen, size_seg = 1024, start_lsn = 50, control_bits = 0x800000000000001E\<rparr>,
             \<lparr>state = kOpen, size_seg = 1024, start_lsn = 30, control_bits = 0\<rparr>],
          current_log_segment = 2\<rparr>))"
  by code_simp

section \<open>The durability hooks\<close>

text \<open>
  Claim C10. When the log store is not null, the result container that
  \<^verbatim>\<open>WriteLogHelper_\<close> indexes at 0 is to be non-empty. \<^verbatim>\<open>PosixLogStore::AppendLogRecord\<close>
  leaves the container as it was passed, that is, empty, so in each of \<^verbatim>\<open>Begin_\<close>,
  \<^verbatim>\<open>Commit_\<close> and \<^verbatim>\<open>Abort_\<close> the access \<^verbatim>\<open>result[0]\<close> is outside the container.
\<close>

theorem durability_hooks_index_empty_result:
  "AppendLogRecord log_records [] = (Ok, [])
   \<and> Begin_hook ctx True = Inl OutOfRange
   \<and> Commit_hook ctx True = Inl OutOfRange
   \<and> Abort_hook ctx True = Inl OutOfRange"
  by (simp add: AppendLogRecord_def Begin_hook_def Commit_hook_def Abort_hook_def
      WriteLogHelper_def)

section \<open>The transaction context\<close>

subsection \<open>The write set is read first\<close>









subsection \<open>Validation of the read set at commit\<close>

lemma ValidateRead_loop_passes:
  assumes "list_all (view_filled env opts rts cts T) rs"
  shows "ValidateRead_loop env (opts\<lparr>owner_ts := Some rts\<rparr>) cts T rs =
           Inr (list_all (read_entry_passes env opts rts cts T) rs)"
  using assms
proof (induction rs)
  case Nil
  then show ?case by simp
next
  case (Cons kv rs)
  obtain k v where kv: "kv = (k, v)" by (cases kv)
  obtain s view where g: "st_GetRow env (snd k) cts (opts\<lparr>owner_ts := Some rts\<rparr>) (T (fst k)) = (s, view)"
    by (cases "st_GetRow env (snd k) cts (opts\<lparr>owner_ts := Some rts\<rparr>) (T (fst k))")
  from Cons.prems have "view_filled env opts rts cts T kv"
    and rest: "list_all (view_filled env opts rts cts T) rs"
    by simp_all
  then have f: "s = Ok \<longrightarrow> view \<noteq> []"
    by (simp add: kv view_filled_def g)
  note IH = Cons.IH [OF rest]
  show ?case
    using f
    by (cases v; cases view)
      (auto simp: kv g IH read_entry_passes_def split: prod.splits)
qed

lemma WriteIntents_keeps:
  assumes "WriteIntents env wopts ctx = (s, ctx1)"
  shows "ctx1 = ctx\<lparr>tables := tables ctx1\<rparr>"
  using assms by (auto simp: WriteIntents_def split: prod.splits)

text \<open>
  The loops of \<^verbatim>\<open>CommitIntents_\<close>, \<^verbatim>\<open>AbortIntents_\<close> and of the undo walk, written out: one
  call of \<^verbatim>\<open>SetTs\<close> on the subtable of each key, in the order of the keys, each on the
  subtables the calls before it have left.
\<close>

lemma set_ts_all_calls:
  "set_ts_all env opts ts keys T =
     foldl (\<lambda>T k. T(fst k := snd (st_SetTs env (snd k) ts opts (T (fst k))))) T keys"
proof -
  have "snd (on_table (st_SetTs env (snd k) ts opts) (fst k) T) =
      T(fst k := snd (st_SetTs env (snd k) ts opts (T (fst k))))" for T k
    by (simp add: on_table_def split_beta)
  then show ?thesis by (simp add: set_ts_all_def)
qed

lemma CommitOrAbort_after_intents:
  assumes rw: "txn_type ctx = ReadWriteTxn"
    and wi: "WriteIntents env (opts\<lparr>check_intent_locked := (lock_manager_type ctx = kInlined)\<rparr>) ctx
               = (Ok, ctx1)"
    and filled: "list_all (view_filled env opts (read_ts ctx) cts (tables ctx1)) (read_set ctx)"
  shows "CommitOrAbort env opts cts ctx =
     Inr (if list_all (read_entry_passes env opts (read_ts ctx) cts (tables ctx1)) (read_set ctx)
          then (Commit, ReleaseLock env opts
                 (ctx\<lparr>commit_ts := cts,
                       tables := set_ts_all env opts cts (map fst (write_set ctx)) (tables ctx1),
                       notified_commit := True\<rparr>))
          else (Abort, ReleaseLock env opts
                 (ctx\<lparr>commit_ts := cts,
                       tables := set_ts_all env opts (kAbortedTxnTs env) (map fst (write_set ctx))
                                   (tables ctx1)\<rparr>)))"
proof -
  note k = WriteIntents_keeps [OF wi]
  have v: "ValidateRead env opts (ctx1\<lparr>commit_ts := cts\<rparr>) =
      Inr (list_all (read_entry_passes env opts (read_ts ctx) cts (tables ctx1)) (read_set ctx))"
    using ValidateRead_loop_passes [OF filled]
    by (subst k) (simp add: ValidateRead_def)
  have c: "CommitIntents env opts (ctx1\<lparr>commit_ts := cts\<rparr>) =
      ctx\<lparr>commit_ts := cts,
          tables := set_ts_all env opts cts (map fst (write_set ctx)) (tables ctx1)\<rparr>"
    by (subst k) (simp add: CommitIntents_def)
  have a: "AbortIntents env opts (ctx1\<lparr>commit_ts := cts\<rparr>) =
      ctx\<lparr>commit_ts := cts,
          tables := set_ts_all env opts (kAbortedTxnTs env) (map fst (write_set ctx)) (tables ctx1)\<rparr>"
    by (subst k) (simp add: AbortIntents_def)
  show ?thesis
    using rw by (simp add: CommitOrAbort_def wi v c a)
qed

text \<open>
  Claim C1. Let a read-write transaction get past the writing of its intents, and let
  every successful read of the validation hand back a row. Then \<^verbatim>\<open>CommitOrAbort\<close>
  returns \<open>Commit\<close> exactly when every entry of the read set passes the check of the
  spec (\<open>read_entry_passes\<close>: the subtable is read at the commit timestamp with
  \<open>owner_ts\<close> set to the read timestamp; \<open>Some ts\<close> needs the timestamp \<open>ts\<close>, \<open>None\<close> needs
  \<open>NotFound\<close>). In that case the subtables are those left by the intents with
  \<^verbatim>\<open>SetTs\<close> to the commit timestamp called once for every key of the write set, in the
  order of the write set; otherwise it returns \<open>Abort\<close> and the subtables are those left
  by the intents with \<^verbatim>\<open>SetTs\<close> to \<open>kAbortedTxnTs\<close> called once for every key of the write
  set. The locks are released on both paths.
\<close>

theorem commit_validates_read_set:
  assumes rw: "txn_type ctx = ReadWriteTxn"
    and wi: "WriteIntents env (opts\<lparr>check_intent_locked := (lock_manager_type ctx = kInlined)\<rparr>) ctx
               = (Ok, ctx1)"
    and filled: "list_all (view_filled env opts (read_ts ctx) cts (tables ctx1)) (read_set ctx)"
  shows "CommitOrAbort env opts cts ctx =
     Inr (if list_all (read_entry_passes env opts (read_ts ctx) cts (tables ctx1)) (read_set ctx)
          then (Commit, ReleaseLock env opts
                 (ctx\<lparr>commit_ts := cts,
                       tables :=
                         foldl (\<lambda>T k. T(fst k := snd (st_SetTs env (snd k) cts opts (T (fst k)))))
                           (tables ctx1) (map fst (write_set ctx)),
                       notified_commit := True\<rparr>))
          else (Abort, ReleaseLock env opts
                 (ctx\<lparr>commit_ts := cts,
                       tables :=
                         foldl (\<lambda>T k. T(fst k :=
                                  snd (st_SetTs env (snd k) (kAbortedTxnTs env) opts (T (fst k)))))
                           (tables ctx1) (map fst (write_set ctx))\<rparr>)))"
  using CommitOrAbort_after_intents [OF rw wi filled]
  by (simp only: set_ts_all_calls)

lemma MarkLocked_example: "MarkLocked example_env 5 = 0x8000000000000005"
  by (simp add: example_env_def)

lemma page_defs_example:
  "st_SetRow example_env = page_SetRow example_cfg"
  "st_DeleteRow example_env = page_DeleteRow example_cfg"
  "st_GetRow example_env = page_GetRow example_cfg"
  "st_SetTs example_env = page_SetTs example_cfg"
  "kAbortedTxnTs example_env = - 1"
  by (simp_all add: example_env_def)

theorem commit_validates_read_set_witness:
  "txn_type validating_ctx = ReadWriteTxn
   \<and> WriteIntents example_env
        (example_opts\<lparr>check_intent_locked := (lock_manager_type validating_ctx = kInlined)\<rparr>)
        validating_ctx
      = (Ok, validating_ctx\<lparr>tables :=
               (\<lambda>_. [])(''b'' := [Insert world 3],
                        ''a'' := [Delete [Int64 2, Int32 0] 0x8000000000000005,
                                  Insert hello 0x8000000000000005],
                        ''c'' := [Insert world 0x8000000000000005])\<rparr>)
   \<and> list_all (view_filled example_env example_opts 5 7
        ((\<lambda>_. [])(''b'' := [Insert world 3],
                  ''a'' := [Delete [Int64 2, Int32 0] 0x8000000000000005,
                            Insert hello 0x8000000000000005],
                  ''c'' := [Insert world 0x8000000000000005])))
        (read_set validating_ctx)
   \<and> list_all (read_entry_passes example_env example_opts 5 7
        ((\<lambda>_. [])(''b'' := [Insert world 3],
                  ''a'' := [Delete [Int64 2, Int32 0] 0x8000000000000005,
                            Insert hello 0x8000000000000005],
                  ''c'' := [Insert world 0x8000000000000005])))
        (read_set validating_ctx)
   \<and> CommitOrAbort example_env example_opts 7 validating_ctx
      = Inr (Commit, validating_ctx\<lparr>commit_ts := 7,
               tables := (\<lambda>_. [])(''b'' := [Insert world 3],
                                   ''a'' := [Delete [Int64 2, Int32 0] 7, Insert hello 7],
                                   ''c'' := [Insert world 7]),
               notified_commit := True\<rparr>)"
proof -
  let ?T1 = "(\<lambda>_. [])(''b'' := [Insert world 3],
                        ''a'' := [Delete [Int64 2, Int32 0] 0x8000000000000005,
                                  Insert hello 0x8000000000000005],
                        ''c'' := [Insert world 0x8000000000000005])
      :: string \<Rightarrow> DeltaChain"
  let ?T2 = "(\<lambda>_. [])(''b'' := [Insert world 3],
                        ''a'' := [Delete [Int64 2, Int32 0] 7, Insert hello 7],
                        ''c'' := [Insert world 7])
      :: string \<Rightarrow> DeltaChain"
  have rw: "txn_type validating_ctx = ReadWriteTxn"
    by (simp add: validating_ctx_def example_ctx_def)
  have rts: "read_ts validating_ctx = 5" and lm: "lock_manager_type validating_ctx = kInlined"
    by (simp_all add: validating_ctx_def example_ctx_def)
  have ws: "write_set validating_ctx =
      [((''a'', [Int64 0, Int32 0]), Some hello), ((''a'', [Int64 2, Int32 0]), None),
       ((''c'', [Int64 1, Int32 0]), Some world)]"
    by (simp add: validating_ctx_def)
  have tb: "tables validating_ctx = (\<lambda>_. [])(''b'' := [Insert world 3])"
    by (simp add: validating_ctx_def)
  have rs: "read_set validating_ctx =
      [((''b'', [Int64 1, Int32 0]), Some 3), ((''a'', [Int64 1, Int32 0]), None)]"
    by (simp add: validating_ctx_def)
  have w1: "page_SetRow example_cfg hello 0x8000000000000005
      (example_opts\<lparr>check_intent_locked := True\<rparr>) [] = (Ok, [Insert hello 0x8000000000000005])"
    by code_simp
  have w2: "page_DeleteRow example_cfg [Int64 2, Int32 0] 0x8000000000000005
      (example_opts\<lparr>check_intent_locked := True\<rparr>) [Insert hello 0x8000000000000005]
      = (Ok, [Delete [Int64 2, Int32 0] 0x8000000000000005, Insert hello 0x8000000000000005])"
    by code_simp
  have w3: "page_SetRow example_cfg world 0x8000000000000005
      (example_opts\<lparr>check_intent_locked := True\<rparr>) [] = (Ok, [Insert world 0x8000000000000005])"
    by code_simp
  have wi: "WriteIntents example_env
        (example_opts\<lparr>check_intent_locked := (lock_manager_type validating_ctx = kInlined)\<rparr>)
        validating_ctx = (Ok, validating_ctx\<lparr>tables := ?T1\<rparr>)"
    by (simp add: WriteIntents_def ws tb rts lm write_intent_def on_table_def MarkLocked_example
        page_defs_example w1 w2 w3)
  have g1: "page_GetRow example_cfg [Int64 1, Int32 0] 7 (example_opts\<lparr>owner_ts := Some 5\<rparr>)
      [Insert world 3] = (Ok, [(world, 3)])"
    by code_simp
  have g2: "page_GetRow example_cfg [Int64 1, Int32 0] 7 (example_opts\<lparr>owner_ts := Some 5\<rparr>)
      [Delete [Int64 2, Int32 0] 0x8000000000000005, Insert hello 0x8000000000000005]
      = (NotFound, [])"
    by code_simp
  have filled: "list_all (view_filled example_env example_opts 5 7 ?T1) (read_set validating_ctx)"
    by (simp add: rs view_filled_def page_defs_example g1 g2 del: page_GetRow.simps)
  have passes: "list_all (read_entry_passes example_env example_opts 5 7 ?T1)
      (read_set validating_ctx)"
    by (simp add: rs read_entry_passes_def page_defs_example g1 g2 del: page_GetRow.simps)
  have t1: "page_SetTs example_cfg [Int64 0, Int32 0] 7 example_opts
      [Delete [Int64 2, Int32 0] 0x8000000000000005, Insert hello 0x8000000000000005]
      = (Ok, [Delete [Int64 2, Int32 0] 0x8000000000000005, Insert hello 7])"
    by code_simp
  have t2: "page_SetTs example_cfg [Int64 2, Int32 0] 7 example_opts
      [Delete [Int64 2, Int32 0] 0x8000000000000005, Insert hello 7]
      = (Ok, [Delete [Int64 2, Int32 0] 7, Insert hello 7])"
    by code_simp
  have t3: "page_SetTs example_cfg [Int64 1, Int32 0] 7 example_opts
      [Insert world 0x8000000000000005] = (Ok, [Insert world 7])"
    by code_simp
  have stamp: "foldl (\<lambda>T k. T(fst k := snd (st_SetTs example_env (snd k) 7 example_opts (T (fst k)))))
      ?T1 (map fst (write_set validating_ctx)) = ?T2"
    by (simp add: ws page_defs_example t1 t2 t3)
  have rl: "ReleaseLock example_env example_opts
      (validating_ctx\<lparr>commit_ts := 7, tables := ?T2, notified_commit := True\<rparr>)
      = validating_ctx\<lparr>commit_ts := 7, tables := ?T2, notified_commit := True\<rparr>"
    by (simp add: ReleaseLock_def lm)
  from commit_validates_read_set [OF rw wi, of 7] filled passes
  have "CommitOrAbort example_env example_opts 7 validating_ctx
      = Inr (Commit, validating_ctx\<lparr>commit_ts := 7, tables := ?T2, notified_commit := True\<rparr>)"
    by (simp add: rts stamp rl)
  with rw wi filled passes show ?thesis by simp
qed

subsection \<open>A failing intent\<close>

lemma WriteIntents_loop_append:
  assumes "WriteIntents_loop env wopts rts u pre T = (Ok, T1)"
  shows "WriteIntents_loop env wopts rts u' (pre @ rest) T =
           WriteIntents_loop env wopts rts (u' @ map fst pre) rest T1"
  using assms
proof (induction pre arbitrary: u u' T)
  case Nil
  then show ?case by simp
next
  case (Cons kv pre)
  obtain s T' where w: "write_intent env wopts rts kv T = (s, T')"
    by (cases "write_intent env wopts rts kv T")
  from Cons.prems have ok: "s = Ok"
    and r: "WriteIntents_loop env wopts rts (u @ [fst kv]) pre T' = (Ok, T1)"
    by (auto simp: w split: if_splits)
  show ?case
    using Cons.IH [OF r, of "u' @ [fst kv]"] by (simp add: w ok)
qed

lemma WriteIntents_loop_fails_at:
  assumes pre: "WriteIntents_loop env wopts rts [] pre T = (Ok, T1)"
    and w: "write_intent env wopts rts kv T1 = (s, T2)" and s: "s \<noteq> Ok"
  shows "WriteIntents_loop env wopts rts [] (pre @ kv # post) T =
           (s, set_ts_all env wopts (kAbortedTxnTs env) (map fst pre) T2)"
  using WriteIntents_loop_append [OF pre, of "[]" "kv # post"] w s by simp

text \<open>
  The loop body of \<^verbatim>\<open>WriteIntents_\<close>, written out: one call of \<^verbatim>\<open>SetRow\<close> or \<^verbatim>\<open>DeleteRow\<close> on
  the subtable of the key, with the locked read timestamp.
\<close>

lemma write_intent_call:
  "write_intent env wopts rts kv T =
     (fst (case snd kv of
             Some row \<Rightarrow> st_SetRow env row (MarkLocked env rts) wopts (T (fst (fst kv)))
           | None \<Rightarrow> st_DeleteRow env (snd (fst kv)) (MarkLocked env rts) wopts (T (fst (fst kv)))),
      T(fst (fst kv) :=
          snd (case snd kv of
                 Some row \<Rightarrow> st_SetRow env row (MarkLocked env rts) wopts (T (fst (fst kv)))
               | None \<Rightarrow> st_DeleteRow env (snd (fst kv)) (MarkLocked env rts) wopts (T (fst (fst kv))))))"
  by (cases "snd kv") (simp_all add: write_intent_def on_table_def split_beta)

lemma WriteIntents_loop_all_ok:
  assumes "\<forall>i<length ws. fst (write_intent env wopts rts (ws ! i)
                (foldl (\<lambda>T kv. snd (write_intent env wopts rts kv T)) T (take i ws))) = Ok"
  shows "WriteIntents_loop env wopts rts u ws T =
           (Ok, foldl (\<lambda>T kv. snd (write_intent env wopts rts kv T)) T ws)"
  using assms
proof (induction ws arbitrary: u T)
  case Nil
  then show ?case by simp
next
  case (Cons kv ws)
  from Cons.prems [rule_format, of 0] have h: "fst (write_intent env wopts rts kv T) = Ok"
    by simp
  have t: "\<forall>i<length ws. fst (write_intent env wopts rts (ws ! i)
      (foldl (\<lambda>T kv. snd (write_intent env wopts rts kv T))
         (snd (write_intent env wopts rts kv T)) (take i ws))) = Ok"
  proof (intro allI impI)
    fix i assume "i < length ws"
    then have "Suc i < length (kv # ws)" by simp
    from Cons.prems [rule_format, OF this]
    show "fst (write_intent env wopts rts (ws ! i)
      (foldl (\<lambda>T kv. snd (write_intent env wopts rts kv T))
         (snd (write_intent env wopts rts kv T)) (take i ws))) = Ok"
      by simp
  qed
  show ?case
    using Cons.IH [OF t, of "u @ [fst kv]"] h
    by (simp add: split_beta)
qed

lemma CommitOrAbort_failed_intent:
  assumes rw: "txn_type ctx = ReadWriteTxn"
    and ws: "write_set ctx = pre @ kv # post"
    and pre: "WriteIntents_loop env
                (opts\<lparr>check_intent_locked := (lock_manager_type ctx = kInlined)\<rparr>)
                (read_ts ctx) [] pre (tables ctx) = (Ok, T1)"
    and w: "write_intent env (opts\<lparr>check_intent_locked := (lock_manager_type ctx = kInlined)\<rparr>)
              (read_ts ctx) kv T1 = (s, T2)"
    and s: "s \<noteq> Ok"
  shows "CommitOrAbort env opts cts ctx =
     Inr (Abort, ReleaseLock env opts
            (ctx\<lparr>tables :=
                  set_ts_all env (opts\<lparr>check_intent_locked := (lock_manager_type ctx = kInlined)\<rparr>)
                    (kAbortedTxnTs env) (map fst pre) T2\<rparr>))"
proof -
  have "WriteIntents env (opts\<lparr>check_intent_locked := (lock_manager_type ctx = kInlined)\<rparr>) ctx =
      (s, ctx\<lparr>tables :=
                set_ts_all env (opts\<lparr>check_intent_locked := (lock_manager_type ctx = kInlined)\<rparr>)
                  (kAbortedTxnTs env) (map fst pre) T2\<rparr>)"
    by (simp add: WriteIntents_def ws WriteIntents_loop_fails_at [OF pre w s])
  then show ?thesis
    using rw s by (simp add: CommitOrAbort_def)
qed

text \<open>
  Claim C2. Let the write set of a read-write transaction be \<open>pre @ kv # post\<close>. Write
  \<open>call T kv\<close> for the call that writes the intent \<open>kv\<close> on the subtables \<open>T\<close> (\<^verbatim>\<open>SetRow\<close>
  of the row, or \<^verbatim>\<open>DeleteRow\<close> of the sort key, on the subtable of the key, with
  \<open>MarkLocked(read_ts)\<close> and with \<open>check_intent_locked\<close> set under the inlined discipline)
  and \<open>written T kv\<close> for the subtables after it. Let every intent of \<open>pre\<close>, written in
  order, return \<open>Ok\<close>, and let the write of \<open>kv\<close> after them fail. Then \<^verbatim>\<open>CommitOrAbort\<close>
  returns \<open>Abort\<close>, and the subtables are those left by the intents of \<open>pre\<close> and the
  failed write, with \<^verbatim>\<open>SetTs\<close> to \<open>kAbortedTxnTs\<close> called once for each key of \<open>pre\<close>, in the
  order they were written: no intent of \<open>post\<close> is written and no other key is stamped.
  The locks are released.
\<close>

theorem failed_intent_aborts_written_prefix:
  fixes env :: "('p, 'l) Collaborators" and ctx :: "('p, 'l) TxnContextOCC" and opts :: Options
  defines "wopts \<equiv> opts\<lparr>check_intent_locked := (lock_manager_type ctx = kInlined)\<rparr>"
  defines "call \<equiv> \<lambda>T kv.
      (case snd kv of
         Some row \<Rightarrow> st_SetRow env row (MarkLocked env (read_ts ctx)) wopts (T (fst (fst kv)))
       | None \<Rightarrow> st_DeleteRow env (snd (fst kv)) (MarkLocked env (read_ts ctx)) wopts
                    (T (fst (fst kv))))"
  defines "written \<equiv> \<lambda>T kv. T(fst (fst kv) := snd (call T kv))"
  assumes rw: "txn_type ctx = ReadWriteTxn"
    and ws: "write_set ctx = pre @ kv # post"
    and pre_ok: "\<forall>i<length pre. fst (call (foldl written (tables ctx) (take i pre)) (pre ! i)) = Ok"
    and fail: "fst (call (foldl written (tables ctx) pre) kv) \<noteq> Ok"
  shows "CommitOrAbort env opts cts ctx =
     Inr (Abort, ReleaseLock env opts
            (ctx\<lparr>tables :=
                  foldl (\<lambda>T k. T(fst k :=
                           snd (st_SetTs env (snd k) (kAbortedTxnTs env) wopts (T (fst k)))))
                    (written (foldl written (tables ctx) pre) kv) (map fst pre)\<rparr>))"
proof -
  have f: "fst (write_intent env wopts (read_ts ctx) kv T) = fst (call T kv)"
    and g: "snd (write_intent env wopts (read_ts ctx) kv T) = written T kv" for T kv
    by (simp_all add: write_intent_call call_def written_def)
  have g': "(\<lambda>T kv. snd (write_intent env wopts (read_ts ctx) kv T)) = written"
    by (rule ext, rule ext, rule g)
  have "\<forall>i<length pre. fst (write_intent env wopts (read_ts ctx) (pre ! i)
      (foldl (\<lambda>T kv. snd (write_intent env wopts (read_ts ctx) kv T)) (tables ctx) (take i pre))) = Ok"
    using pre_ok by (simp only: f g')
  then have pre: "WriteIntents_loop env wopts (read_ts ctx) [] pre (tables ctx) =
      (Ok, foldl written (tables ctx) pre)"
    using WriteIntents_loop_all_ok [of pre env wopts "read_ts ctx" "tables ctx" "[]"]
    by (simp only: g')
  have w: "write_intent env wopts (read_ts ctx) kv (foldl written (tables ctx) pre) =
      (fst (call (foldl written (tables ctx) pre) kv), written (foldl written (tables ctx) pre) kv)"
    by (simp only: f [symmetric] g [symmetric] prod.collapse)
  show ?thesis
    using CommitOrAbort_failed_intent [OF rw ws pre [unfolded wopts_def] w [unfolded wopts_def] fail]
    by (simp only: set_ts_all_calls wopts_def)
qed

theorem failed_intent_aborts_written_prefix_witness:
  "txn_type conflicting_ctx = ReadWriteTxn
   \<and> write_set conflicting_ctx =
        [((''a'', [Int64 1, Int32 0]), Some world), ((''a'', [Int64 2, Int32 0]), None)]
        @ ((''a'', [Int64 0, Int32 0]), Some hello) # [((''a'', [Int64 3, Int32 0]), Some again)]
   \<and> st_SetRow example_env world (MarkLocked example_env 5)
        (example_opts\<lparr>check_intent_locked := True\<rparr>) [Insert hello 0x8000000000000009]
      = (Ok, [Insert world 0x8000000000000005, Insert hello 0x8000000000000009])
   \<and> st_DeleteRow example_env [Int64 2, Int32 0] (MarkLocked example_env 5)
        (example_opts\<lparr>check_intent_locked := True\<rparr>)
        [Insert world 0x8000000000000005, Insert hello 0x8000000000000009]
      = (Ok, [Delete [Int64 2, Int32 0] 0x8000000000000005, Insert world 0x8000000000000005,
              Insert hello 0x8000000000000009])
   \<and> st_SetRow example_env hello (MarkLocked example_env 5)
        (example_opts\<lparr>check_intent_locked := True\<rparr>)
        [Delete [Int64 2, Int32 0] 0x8000000000000005, Insert world 0x8000000000000005,
         Insert hello 0x8000000000000009]
      = (Conflict, [Delete [Int64 2, Int32 0] 0x8000000000000005,
                    Insert world 0x8000000000000005, Insert hello 0x8000000000000009])
   \<and> CommitOrAbort example_env example_opts 7 conflicting_ctx
      = Inr (Abort, conflicting_ctx\<lparr>tables :=
               (\<lambda>_. [])(''a'' := [Delete [Int64 2, Int32 0] (- 1), Insert world (- 1),
                                  Insert hello 0x8000000000000009])\<rparr>)"
proof -
  let ?pre = "[((''a'', [Int64 1, Int32 0]), Some world), ((''a'', [Int64 2, Int32 0]), None)]"
  let ?kv = "((''a'', [Int64 0, Int32 0]), Some hello)"
  let ?post = "[((''a'', [Int64 3, Int32 0]), Some again)]"
  have rw: "txn_type conflicting_ctx = ReadWriteTxn"
    and rts: "read_ts conflicting_ctx = 5"
    and lm: "lock_manager_type conflicting_ctx = kInlined"
    and tb: "tables conflicting_ctx = (\<lambda>_. [])(''a'' := [Insert hello 0x8000000000000009])"
    by (simp_all add: conflicting_ctx_def example_ctx_def)
  have ws: "write_set conflicting_ctx = ?pre @ ?kv # ?post"
    by (simp add: conflicting_ctx_def)
  have w1: "page_SetRow example_cfg world 0x8000000000000005
      (example_opts\<lparr>check_intent_locked := True\<rparr>) [Insert hello 0x8000000000000009]
      = (Ok, [Insert world 0x8000000000000005, Insert hello 0x8000000000000009])"
    by code_simp
  have w2: "page_DeleteRow example_cfg [Int64 2, Int32 0] 0x8000000000000005
      (example_opts\<lparr>check_intent_locked := True\<rparr>)
      [Insert world 0x8000000000000005, Insert hello 0x8000000000000009]
      = (Ok, [Delete [Int64 2, Int32 0] 0x8000000000000005, Insert world 0x8000000000000005,
              Insert hello 0x8000000000000009])"
    by code_simp
  have w3: "page_SetRow example_cfg hello 0x8000000000000005
      (example_opts\<lparr>check_intent_locked := True\<rparr>)
      [Delete [Int64 2, Int32 0] 0x8000000000000005, Insert world 0x8000000000000005,
       Insert hello 0x8000000000000009]
      = (Conflict, [Delete [Int64 2, Int32 0] 0x8000000000000005,
                    Insert world 0x8000000000000005, Insert hello 0x8000000000000009])"
    by code_simp
  have u1: "page_SetTs example_cfg [Int64 1, Int32 0] (- 1)
      (example_opts\<lparr>check_intent_locked := True\<rparr>)
      [Delete [Int64 2, Int32 0] 0x8000000000000005, Insert world 0x8000000000000005,
       Insert hello 0x8000000000000009]
      = (Ok, [Delete [Int64 2, Int32 0] 0x8000000000000005, Insert world (- 1),
              Insert hello 0x8000000000000009])"
    by code_simp
  have u2: "page_SetTs example_cfg [Int64 2, Int32 0] (- 1)
      (example_opts\<lparr>check_intent_locked := True\<rparr>)
      [Delete [Int64 2, Int32 0] 0x8000000000000005, Insert world (- 1),
       Insert hello 0x8000000000000009]
      = (Ok, [Delete [Int64 2, Int32 0] (- 1), Insert world (- 1),
              Insert hello 0x8000000000000009])"
    by code_simp
  note ev = rts lm tb MarkLocked_example page_defs_example w1 w2 w3 u1 u2
  have rl: "ReleaseLock example_env example_opts (conflicting_ctx\<lparr>tables := T\<rparr>)
      = conflicting_ctx\<lparr>tables := T\<rparr>" for T
    by (simp add: ReleaseLock_def lm)
  have "CommitOrAbort example_env example_opts 7 conflicting_ctx
      = Inr (Abort, conflicting_ctx\<lparr>tables :=
               (\<lambda>_. [])(''a'' := [Delete [Int64 2, Int32 0] (- 1), Insert world (- 1),
                                  Insert hello 0x8000000000000009])\<rparr>)"
    using failed_intent_aborts_written_prefix [where env = example_env and ctx = conflicting_ctx
        and opts = example_opts and pre = ?pre and kv = ?kv and post = ?post and cts = 7,
        OF rw ws]
    by (simp add: ev rl less_Suc_eq all_conj_distrib)
  with rw ws show ?thesis
    by (simp add: MarkLocked_example page_defs_example w1 w2 w3)
qed

section \<open>The versioned page\<close>

text \<open>
  Without \<open>check_intent_locked\<close>, which \<^verbatim>\<open>CommitOrAbort\<close> sets under the inlined lock
  discipline only, a write to the page of the spec never fails.
\<close>

lemma page_write_without_check:
  assumes "\<not> check_intent_locked opts"
  shows "fst (page_SetRow cfg row ts opts chain) = Ok"
    and "fst (page_DeleteRow cfg sk ts opts chain) = Ok"
  using assms by (simp_all add: page_SetRow_def page_DeleteRow_def)

lemma map_of_map_filter_keys:
  "map_of (List.map_filter
             (\<lambda>k. case f k of Some (Some v) \<Rightarrow> Some (k, v) | _ \<Rightarrow> None) ks) k =
     (if k \<in> set ks then (case f k of Some (Some v) \<Rightarrow> Some v | _ \<Rightarrow> None) else None)"
  by (induction ks) (auto simp: List.map_filter_simps split: option.splits)

lemma page_GetRow_compact:
  "page_GetRow cfg sk rts opts (compact cfg chain) =
     (case map_of (replay cfg chain) sk of
        Some (Some (r, ts)) \<Rightarrow> if visible cfg opts rts ts then (Ok, [(r, ts)]) else (NotFound, [])
      | _ \<Rightarrow> (NotFound, []))"
proof -
  have dom: "sk \<notin> set (map fst (replay cfg chain)) \<Longrightarrow> map_of (replay cfg chain) sk = None"
    by (simp add: map_of_eq_None_iff)
  show ?thesis
    unfolding compact_def
    using dom
    by (auto simp: map_of_map_filter_keys split: option.splits)
qed

lemma committed_visible:
  "committed cfg ts \<Longrightarrow> visible cfg opts rts ts \<longleftrightarrow> ts \<le> rts"
  by (simp add: committed_def visible_def)

lemma page_GetRow_install_write:
  assumes "committed cfg ts" and "ts \<le> rts" and "e = Insert row ts \<or> e = Update row ts"
  shows "page_GetRow cfg (GetSortKeys row) rts opts' (install cfg opts e chain) = (Ok, [(row, ts)])"
proof (cases "\<not> disable_compaction opts \<and> delta_chain_length cfg < length (e # chain)")
  case True
  have "map_of (replay cfg (e # chain)) (GetSortKeys row) = Some (Some (row, ts))"
    using assms by (auto simp: replay_def)
  then show ?thesis
    using True assms
    by (simp add: install_def page_GetRow_compact committed_visible)
next
  case False
  then show ?thesis
    using assms by (auto simp: install_def committed_visible)
qed

lemma page_GetRow_install_delete:
  assumes "committed cfg ts" and "ts \<le> rts"
  shows "page_GetRow cfg sk rts opts' (install cfg opts (Delete sk ts) chain) = (NotFound, [])"
proof (cases "\<not> disable_compaction opts \<and> delta_chain_length cfg < length (Delete sk ts # chain)")
  case True
  have "map_of (replay cfg (Delete sk ts # chain)) sk = Some None"
    using assms by (simp add: replay_def)
  then show ?thesis
    using True by (simp add: install_def page_GetRow_compact)
next
  case False
  then show ?thesis
    using assms by (auto simp: install_def committed_visible)
qed


text \<open>
  Claim C8. On a versioned page, after \<open>SetRow(row, ts)\<close> with a timestamp that is
  neither the aborted marker nor locked, \<open>GetRow\<close> on the sort key of the row at any read
  timestamp from \<open>ts\<close> on returns the row as written, with all its column values. After
  a following \<open>DeleteRow\<close> on the sort key at a later timestamp of the same kind,
  \<open>GetRow\<close> at any read timestamp from that one on returns \<open>NotFound\<close>. Both hold
  whether or not the writes trigger a compaction.
\<close>

theorem page_round_trips:
  assumes "page_SetRow cfg row ts opts chain = (Ok, chain1)"
    and "committed cfg ts"
  shows "(ts \<le> rts \<longrightarrow>
            page_GetRow cfg (GetSortKeys row) rts opts1 chain1 = (Ok, [(row, ts)]))
       \<and> (page_DeleteRow cfg (GetSortKeys row) ts' opts2 chain1 = (Ok, chain2)
            \<and> committed cfg ts' \<and> ts < ts' \<and> ts' \<le> rts' \<longrightarrow>
            page_GetRow cfg (GetSortKeys row) rts' opts3 chain2 = (NotFound, []))"
proof -
  from assms(1) obtain e where e: "e = Insert row ts \<or> e = Update row ts"
    and c1: "chain1 = install cfg opts e chain"
    by (auto simp: page_SetRow_def split: if_splits)
  have "ts \<le> rts \<longrightarrow>
           page_GetRow cfg (GetSortKeys row) rts opts1 chain1 = (Ok, [(row, ts)])"
    using page_GetRow_install_write [OF assms(2) _ e] c1 by simp
  moreover have "page_DeleteRow cfg (GetSortKeys row) ts' opts2 chain1 = (Ok, chain2)
           \<and> committed cfg ts' \<and> ts < ts' \<and> ts' \<le> rts' \<longrightarrow>
           page_GetRow cfg (GetSortKeys row) rts' opts3 chain2 = (NotFound, [])"
    by (auto simp: page_DeleteRow_def page_GetRow_install_delete split: if_splits)
  ultimately show ?thesis by simp
qed

theorem page_round_trips_witness:
  "page_SetRow example_cfg hello 0 example_opts [] = (Ok, [Insert hello 0])
   \<and> committed example_cfg 0 \<and> (0 :: TxnTs) \<le> 1
   \<and> page_GetRow example_cfg [Int64 0, Int32 0] 1 example_opts [Insert hello 0] = (Ok, [(hello, 0)])
   \<and> page_DeleteRow example_cfg [Int64 0, Int32 0] 2 example_opts [Insert hello 0]
        = (Ok, [Delete [Int64 0, Int32 0] 2, Insert hello 0])
   \<and> committed example_cfg 2 \<and> (0 :: TxnTs) < 2
   \<and> page_GetRow example_cfg [Int64 0, Int32 0] 2 example_opts
         [Delete [Int64 0, Int32 0] 2, Insert hello 0] = (NotFound, [])"
proof -
  have s: "page_SetRow example_cfg hello 0 example_opts [] = (Ok, [Insert hello 0])"
    by code_simp
  have c0: "committed example_cfg 0" by code_simp
  have c2: "committed example_cfg 2" by code_simp
  have k: "GetSortKeys hello = [Int64 0, Int32 0]" by code_simp
  have d: "page_DeleteRow example_cfg [Int64 0, Int32 0] 2 example_opts [Insert hello 0]
        = (Ok, [Delete [Int64 0, Int32 0] 2, Insert hello 0])"
    by code_simp
  show ?thesis
    using page_round_trips [OF s c0, of 1 example_opts 2 example_opts
        "[Delete [Int64 0, Int32 0] 2, Insert hello 0]" 2 example_opts]
    by (simp add: s c0 c2 k d)
qed

end
